theory Spec2Isabelle
  imports Main "HOL-Library.Sublist"
begin

section \<open>ITK files handling (qsiprep/interfaces/itk.py)\<close>

subsection \<open>Errors, files and the file system\<close>

text \<open>
  Every exception the module can raise is a value of \<open>error\<close>; a function that may raise
  returns \<open>error + 'a\<close> with \<open>Inl\<close> for the exception.
\<close>

datatype error =
    Exception_unable_to_unpack
  | OSError
  | AssertionError
  | RuntimeError_count_mismatch nat int
  | ValueError_not_in_list
  | ValueError_no_transform_info
  | ValueError_unable_to_read
  | ValueError_too_many
  | ValueError_float
  | UnicodeDecodeError
  | ExternalToolError string
  | ImageFileError
  | CancelledError

datatype dtype = UInt8 | Int16 | Int32 | Float32 | Float64

text \<open>
  A file is a text file, an image (header data type and the voxel array, which stays
  opaque) or some other binary artifact.
\<close>

datatype content = Text string | Image dtype "int list" | Binary

record fsys =
  files :: "string \<rightharpoonup> content"
  dirs :: "string set"

text \<open>\<open>os.path.exists\<close>: true of a file and of a directory.\<close>

definition path_exists :: "'a fsys_scheme \<Rightarrow> string \<Rightarrow> bool" where
  "path_exists fs p = (files fs p \<noteq> None \<or> p \<in> dirs fs)"

subsection \<open>DisassembleTransform\<close>

text \<open>
  What \<open>subprocess.Popen(...).communicate()\<close> hands back: the exit status and the two
  captured streams. The process itself is a parameter: it maps the command line and the
  file system to an \<open>OSError\<close> (the executable cannot be started) or to its result and
  the file system it leaves behind.
\<close>

record completed =
  returncode :: int
  stdout :: string
  stderr :: string

type_synonym process = "string list \<Rightarrow> fsys \<Rightarrow> error + (completed \<times> fsys)"

definition affine_out :: "string \<Rightarrow> string" where
  "affine_out cwd = cwd @ ''/00_disassemble_AffineTransform.mat''"

definition warp_out :: "string \<Rightarrow> string" where
  "warp_out cwd = cwd @ ''/01_disassemble_DisplacementFieldTransform.nii.gz''"

definition disassemble_cmd :: "string \<Rightarrow> string list" where
  "disassemble_cmd in_file = [''CompositeTransformUtil'', ''--disassemble'', in_file, ''disassemble'']"

text \<open>
  \<open>DisassembleTransform._run_interface\<close>. The logger call has no effect on the result and
  is left out; the exit status in \<open>proc\<close> is never read, as in the source.
\<close>

definition DisassembleTransform_run_interface ::
  "process \<Rightarrow> string \<Rightarrow> string \<Rightarrow> fsys \<Rightarrow> (error + string list) \<times> fsys" where
  "DisassembleTransform_run_interface popen cwd in_file fs =
     (case popen (disassemble_cmd in_file) fs of
        Inl e \<Rightarrow> (Inl e, fs)
      | Inr (proc, fs') \<Rightarrow>
          if False \<in> set [path_exists fs' (affine_out cwd), path_exists fs' (warp_out cwd)]
          then (Inl Exception_unable_to_unpack, fs')
          else (Inr [affine_out cwd, warp_out cwd], fs'))"

subsection \<open>Python string operations\<close>

text \<open>
  \<open>str.isspace\<close> on the code points below 256: tab to carriage return, the four
  separators 28 to 31, the space, NEL and the no-break space.
\<close>

definition is_space :: "char \<Rightarrow> bool" where
  "is_space c = (c \<in> set [CHR 0x09, CHR 0x0A, CHR 0x0B, CHR 0x0C, CHR 0x0D, CHR 0x1C, CHR 0x1D,
                           CHR 0x1E, CHR 0x1F, CHR 0x20, CHR 0x85, CHR 0xA0])"

text \<open>\<open>s.strip()\<close>\<close>

definition strip :: "string \<Rightarrow> string" where
  "strip s = rev (dropWhile is_space (rev (dropWhile is_space s)))"

text \<open>
  \<open>s.split(sep)\<close> for a non-empty separator: the pieces between the occurrences of
  \<open>sep\<close>, found from left to right; \<open>cur\<close> is the piece being read.
\<close>

fun split_from :: "string \<Rightarrow> string \<Rightarrow> string \<Rightarrow> string list" where
  "split_from sep cur [] = [cur]"
| "split_from sep cur (c # cs) =
     (if sep \<noteq> [] \<and> prefix sep (c # cs)
      then cur # split_from sep [] (drop (length sep) (c # cs))
      else split_from sep (cur @ [c]) cs)"

definition py_split :: "string \<Rightarrow> string \<Rightarrow> string list" where
  "py_split sep s = split_from sep [] s"

text \<open>\<open>s.split()\<close>: the maximal runs of characters that are not whitespace.\<close>

fun words_from :: "string \<Rightarrow> string \<Rightarrow> string list" where
  "words_from cur [] = (if cur = [] then [] else [cur])"
| "words_from cur (c # cs) =
     (if is_space c
      then (if cur = [] then words_from [] cs else cur # words_from [] cs)
      else words_from (cur @ [c]) cs)"

definition py_words :: "string \<Rightarrow> string list" where
  "py_words s = words_from [] s"

text \<open>\<open>sep.join(xs)\<close>\<close>

fun join :: "string \<Rightarrow> string list \<Rightarrow> string" where
  "join sep [] = []"
| "join sep [x] = x"
| "join sep (x # y # ys) = x @ sep @ join sep (y # ys)"

text \<open>
  \<open>str(b)\<close> of a bytes object is its \<open>repr\<close>: the letter b, a quote, every byte escaped,
  the quote again. The quote is the single quote unless the bytes hold a single quote
  and no double quote.
\<close>

definition repr_quote :: "string \<Rightarrow> char" where
  "repr_quote b = (if CHR 0x27 \<in> set b \<and> CHR 0x22 \<notin> set b then CHR 0x22 else CHR 0x27)"

definition hexdigit :: "nat \<Rightarrow> char" where
  "hexdigit n = ''0123456789abcdef'' ! (n mod 16)"

definition repr_byte :: "char \<Rightarrow> char \<Rightarrow> string" where
  "repr_byte q c =
     (if c = q \<or> c = CHR 0x5C then [CHR 0x5C, c]
      else if c = CHR 0x09 then [CHR 0x5C, CHR ''t'']
      else if c = CHR 0x0A then [CHR 0x5C, CHR ''n'']
      else if c = CHR 0x0D then [CHR 0x5C, CHR ''r'']
      else if (of_char c :: nat) < 32 \<or> (of_char c :: nat) \<ge> 127
           then [CHR 0x5C, CHR ''x'', hexdigit (of_char c div 16), hexdigit (of_char c)]
      else [c])"

definition str_of_bytes :: "string \<Rightarrow> string" where
  "str_of_bytes b = CHR ''b'' # repr_quote b # concat (map (repr_byte (repr_quote b)) b) @ [repr_quote b]"

text \<open>
  \<open>s.count(sub)\<close>: the occurrences of \<open>sub\<close> that do not overlap, counted from the left
  (an empty \<open>sub\<close> is found once between any two characters and at both ends).
\<close>

fun count_sub :: "string \<Rightarrow> string \<Rightarrow> nat" where
  "count_sub sub [] = (if sub = [] then 1 else 0)"
| "count_sub sub (c # cs) =
     (if sub = [] then length cs + 2
      else if prefix sub (c # cs) then 1 + count_sub sub (drop (length sub) (c # cs))
      else count_sub sub cs)"

text \<open>\<open>xs.index(x)\<close>: the first position of \<open>x\<close>, or nothing (a \<open>ValueError\<close>).\<close>

fun index_of :: "'a \<Rightarrow> 'a list \<Rightarrow> nat option" where
  "index_of x [] = None"
| "index_of x (y # ys) = (if y = x then Some 0 else map_option Suc (index_of x ys))"

text \<open>\<open>'%d' % n\<close> and \<open>'%0wd' % n\<close> for a natural number.\<close>

definition digit_char :: "nat \<Rightarrow> char" where
  "digit_char d = char_of (48 + d)"

fun string_of_nat :: "nat \<Rightarrow> string" where
  "string_of_nat n =
     (if n < 10 then [digit_char n] else string_of_nat (n div 10) @ [digit_char (n mod 10)])"

declare string_of_nat.simps [simp del]

definition pct_0d :: "nat \<Rightarrow> nat \<Rightarrow> string" where
  "pct_0d w n = replicate (w - length (string_of_nat n)) (CHR ''0'') @ string_of_nat n"

text \<open>
  The transposition \<open>list(map(list, zip(...)))\<close> of the unpacked rows: the columns, cut
  at the shortest row; no row at all gives no column at all.
\<close>

definition zip_star :: "'a list list \<Rightarrow> 'a list list" where
  "zip_star rows =
     (if rows = [] then []
      else map (\<lambda>j. map (\<lambda>r. r ! j) rows) [0 ..< Min (set (map length rows))])"

subsection \<open>\_arrange\_xfms\<close>

text \<open>
  The library functions the arranger calls are parameters: \<open>mimetypes.guess_type\<close> (its
  first component), nipype's \<open>fname_presuffix\<close> (file name, suffix, new path) and
  \<open>str.format\<close> with one integer argument.
\<close>

record env =
  guess_type :: "string \<Rightarrow> string option"
  fname_presuffix :: "string \<Rightarrow> string \<Rightarrow> string \<Rightarrow> string"
  str_format :: "string \<Rightarrow> nat \<Rightarrow> string"

definition newline :: string where
  "newline = [CHR 0x0A]"

definition base_xform :: "string list" where
  "base_xform = [''#Insight Transform File V1.0'', ''#Transform 0'']"

text \<open>\<open>open(tf_file).read()\<close>\<close>

definition read_text :: "(string \<rightharpoonup> content) \<Rightarrow> string \<Rightarrow> error + string" where
  "read_text fs p =
     (case fs p of
        None \<Rightarrow> Inl OSError
      | Some (Text s) \<Rightarrow> Inr s
      | Some _ \<Rightarrow> Inl UnicodeDecodeError)"

text \<open>
  The start token of block \<open>xform_i\<close>, the three lines after the token at \<open>startidx\<close>, and
  the text written for the block: the two lines of \<open>base_xform\<close>, the three data lines
  and an empty last line, joined by newlines.
\<close>

definition start_token :: "nat \<Rightarrow> string" where
  "start_token xform_i = ''#Transform '' @ string_of_nat xform_i"

definition block_data :: "string list \<Rightarrow> nat \<Rightarrow> string list" where
  "block_data tfdata startidx = take 3 (drop (startidx + 1) tfdata)"

definition next_xform :: "string list \<Rightarrow> nat \<Rightarrow> string list" where
  "next_xform tfdata startidx = base_xform @ block_data tfdata startidx @ [ [] ]"

definition xform_text :: "string list \<Rightarrow> nat \<Rightarrow> error + string" where
  "xform_text tfdata xform_i =
     (case index_of (start_token xform_i) tfdata of
        None \<Rightarrow> Inl ValueError_not_in_list
      | Some startidx \<Rightarrow> Inr (join newline (next_xform tfdata startidx)))"

text \<open>
  The inner loop over \<open>range(nxforms)\<close>: find the start token, write the block as a file
  of its own, remember the file's name.
\<close>

fun split_loop ::
  "(nat \<Rightarrow> string) \<Rightarrow> string list \<Rightarrow> nat list \<Rightarrow> string list \<Rightarrow> (string \<rightharpoonup> content)
     \<Rightarrow> (error + string list) \<times> (string \<rightharpoonup> content)" where
  "split_loop out_base tfdata [] split_xfms fs = (Inr split_xfms, fs)"
| "split_loop out_base tfdata (xform_i # rest) split_xfms fs =
     (case xform_text tfdata xform_i of
        Inl e \<Rightarrow> (Inl e, fs)
      | Inr text \<Rightarrow>
          let xfm_file = out_base xform_i
          in split_loop out_base tfdata rest (split_xfms @ [xfm_file]) (fs(xfm_file \<mapsto> Text text)))"

text \<open>The lines of the stripped file after its first one.\<close>

definition itk_lines :: "string \<Rightarrow> string list" where
  "itk_lines tfdata = drop 1 (py_split newline tfdata)"

text \<open>
  The base name of the files split off source \<open>i\<close>:
  \<open>fname_presuffix(tf_file, suffix='_pos-%03d_xfm-{:05d}' % i, newpath=tmp_folder.name).format\<close>.
\<close>

definition out_base_name :: "env \<Rightarrow> string \<Rightarrow> nat \<Rightarrow> string \<Rightarrow> nat \<Rightarrow> string" where
  "out_base_name E tf_file i tmp =
     str_format E (fname_presuffix E tf_file (''_pos-'' @ pct_0d 3 i @ ''_xfm-{:05d}'') tmp)"

text \<open>The outer loop over \<open>enumerate(transforms)\<close>; \<open>xfms_T\<close> is the table built so far.\<close>

fun arrange_loop ::
  "env \<Rightarrow> int \<Rightarrow> string \<Rightarrow> (nat \<times> string) list \<Rightarrow> string list list \<Rightarrow> (string \<rightharpoonup> content)
     \<Rightarrow> (error + string list list) \<times> (string \<rightharpoonup> content)" where
  "arrange_loop E num_files tmp [] xfms_T fs = (Inr xfms_T, fs)"
| "arrange_loop E num_files tmp ((i, tf_file) # rest) xfms_T fs =
     (if guess_type E tf_file \<noteq> Some ''text/plain''
      then arrange_loop E num_files tmp rest (xfms_T @ [replicate (nat num_files) tf_file]) fs
      else case read_text fs tf_file of
        Inl e \<Rightarrow> (Inl e, fs)
      | Inr raw \<Rightarrow>
          let tfdata = strip raw in
          if \<not> prefix ''#Insight Transform File'' tfdata
          then arrange_loop E num_files tmp rest (xfms_T @ [replicate (nat num_files) tf_file]) fs
          else
            let nxforms = count_sub ''#Transform'' tfdata;
                tflines = itk_lines tfdata
            in if nxforms = 1
               then arrange_loop E num_files tmp rest (xfms_T @ [replicate (nat num_files) tf_file]) fs
               else if int nxforms \<noteq> num_files
               then (Inl (RuntimeError_count_mismatch nxforms num_files), fs)
               else
                 let out_base = out_base_name E tf_file i tmp
                 in case split_loop out_base tflines [0 ..< nxforms] [] fs of
                      (Inl e, fs') \<Rightarrow> (Inl e, fs')
                    | (Inr split_xfms, fs') \<Rightarrow>
                        arrange_loop E num_files tmp rest (xfms_T @ [split_xfms]) fs')"

definition arrange_xfms ::
  "env \<Rightarrow> string list \<Rightarrow> int \<Rightarrow> string \<Rightarrow> (string \<rightharpoonup> content)
     \<Rightarrow> (error + string list list) \<times> (string \<rightharpoonup> content)" where
  "arrange_xfms E transforms num_files tmp fs =
     (case arrange_loop E num_files tmp (enumerate 0 transforms) [] fs of
        (Inl e, fs') \<Rightarrow> (Inl e, fs')
      | (Inr xfms_T, fs') \<Rightarrow> (Inr (zip_star xfms_T), fs'))"

text \<open>
  The constant case of a source, as the loop tests it: not a plain-text file by its name,
  or a text that does not start with the ITK header, or an ITK text with one start token.
\<close>

definition constant_case :: "env \<Rightarrow> (string \<rightharpoonup> content) \<Rightarrow> string \<Rightarrow> bool" where
  "constant_case E fs tf_file =
     (guess_type E tf_file \<noteq> Some ''text/plain'' \<or>
      (case fs tf_file of
         Some (Text raw) \<Rightarrow>
           \<not> prefix ''#Insight Transform File'' (strip raw) \<or> count_sub ''#Transform'' (strip raw) = 1
       | _ \<Rightarrow> False))"

subsection \<open>The legacy text container\<close>

text \<open>
  The file format as the interface description lists it: the format-version line, then
  for block \<open>j\<close> the line \<open>#Transform j\<close> and three data lines (transform type,
  parameters, fixed parameters); every line ends with a newline.
\<close>

type_synonym block = "string \<times> string \<times> string"

definition block_lines :: "nat \<Rightarrow> block \<Rightarrow> string list" where
  "block_lines j b = (case b of (t, ps, fps) \<Rightarrow> [start_token j, t, ps, fps])"

definition blocks_from :: "nat \<Rightarrow> block list \<Rightarrow> string list" where
  "blocks_from j bs = concat (map (\<lambda>(j, b). block_lines j b) (enumerate j bs))"

definition container_lines :: "block list \<Rightarrow> string list" where
  "container_lines bs = ''#Insight Transform File V1.0'' # blocks_from 0 bs"

definition container_text :: "block list \<Rightarrow> string" where
  "container_text bs = join newline (container_lines bs) @ newline"

text \<open>
  A data line holds no newline and no hash sign. A block is well formed when its three
  lines are data lines; a container is well formed when it has a block and all its
  blocks are well formed.
\<close>

definition data_line :: "string \<Rightarrow> bool" where
  "data_line l = (\<forall>c \<in> set l. c \<noteq> CHR 0x0A \<and> c \<noteq> CHR ''#'')"

definition wf_block :: "block \<Rightarrow> bool" where
  "wf_block b = (case b of (t, ps, fps) \<Rightarrow> data_line t \<and> data_line ps \<and> data_line fps)"

definition well_formed :: "block list \<Rightarrow> bool" where
  "well_formed bs = (bs \<noteq> [] \<and> list_all wf_block bs)"

text \<open>
  The last data line of a container, and the lines whose end \<open>strip\<close> leaves alone: not
  empty and not ending in whitespace.
\<close>

definition last_line :: "block list \<Rightarrow> string" where
  "last_line bs = snd (snd (last bs))"

definition clean_end :: "string \<Rightarrow> bool" where
  "clean_end l = (l \<noteq> [] \<and> \<not> is_space (last l))"

text \<open>
  The standalone file of one block as the interface description lists it: the
  format-version line, the marker line of block 0, the three data lines of the block and
  an empty last line. The files a split is to write, in this order: for block \<open>i\<close> the
  standalone file of block \<open>i\<close> under the name made for \<open>i\<close>.
\<close>

definition standalone_text :: "block \<Rightarrow> string" where
  "standalone_text b = (case b of (t, ps, fps) \<Rightarrow>
     join newline [''#Insight Transform File V1.0'', ''#Transform 0'', t, ps, fps, [] ])"

definition split_files :: "(nat \<Rightarrow> string) \<Rightarrow> block list \<Rightarrow> (string \<times> string) list" where
  "split_files out_base bs = map (\<lambda>i. (out_base i, standalone_text (bs ! i))) [0 ..< length bs]"

fun write_all :: "(string \<times> string) list \<Rightarrow> (string \<rightharpoonup> content) \<Rightarrow> (string \<rightharpoonup> content)" where
  "write_all [] fs = fs"
| "write_all ((p, text) # rest) fs = write_all rest (fs(p \<mapsto> Text text))"

subsection \<open>MultiApplyTransforms\<close>

text \<open>
  The option bag \<open>ifargs\<close> is a dictionary from input names to values. It is one object
  shared by all jobs, and a job removes a key from it, so it is part of the state.
  The state also records, as a trace, the effects whose order or absence matters: a
  worker pool being created, a job starting, an image being written by \<open>to_filename\<close>.
\<close>

datatype argval = BoolV bool | IntV int | StrV string | ListV "string list"

fun truthy :: "argval \<Rightarrow> bool" where
  "truthy (BoolV b) = b"
| "truthy (IntV i) = (i \<noteq> 0)"
| "truthy (StrV s) = (s \<noteq> [])"
| "truthy (ListV xs) = (xs \<noteq> [])"

datatype event = PoolCreated "int option" | Job nat | ToFilename string

record state = fsys +
  ifargs :: "string \<rightharpoonup> argval"
  events :: "event list"

text \<open>
  The collaborators of the executor, added to those of the arranger: the command line
  nipype derives from the inputs of \<open>ApplyTransforms\<close>, the run of that interface (an
  error, or the files it leaves), and the name \<open>TemporaryDirectory\<close> picks inside a
  directory given the directories that exist, and the array nibabel stores when an
  image loaded with one data type (first argument) is written with another (second).
\<close>

record tools = env +
  cmdline_of :: "string \<Rightarrow> string list \<Rightarrow> string \<Rightarrow> (string \<rightharpoonup> argval) \<Rightarrow> string"
  apply_transforms :: "string \<Rightarrow> string list \<Rightarrow> string \<Rightarrow> (string \<rightharpoonup> argval)
                         \<Rightarrow> (string \<rightharpoonup> content) \<Rightarrow> error + (string \<rightharpoonup> content)"
  temp_name :: "string \<Rightarrow> string set \<Rightarrow> string"
  recast :: "dtype \<Rightarrow> dtype \<Rightarrow> int list \<Rightarrow> int list"

text \<open>\<open>nb.load(p)\<close>, as far as the data type and the array go.\<close>

definition load_image :: "(string \<rightharpoonup> content) \<Rightarrow> string \<Rightarrow> error + (dtype \<times> int list)" where
  "load_image fs p =
     (case fs p of
        Some (Image dt arr) \<Rightarrow> Inr (dt, arr)
      | _ \<Rightarrow> Inl ImageFileError)"

definition out_file_name :: "'a tools_scheme \<Rightarrow> string \<Rightarrow> nat \<Rightarrow> string \<Rightarrow> string" where
  "out_file_name T in_file index newpath =
     fname_presuffix T in_file (''_xform-'' @ pct_0d 5 index) newpath"

text \<open>
  \<open>_applytfms\<close>. The argument tuple is (input file, its transforms, index, new path);
  the fifth component of the source's tuple, \<open>ifargs\<close>, is the shared dictionary in the
  state. \<open>ifargs.pop('copy_dtype', False)\<close> reads the key and removes it.
\<close>

type_synonym job = "string \<times> string list \<times> nat \<times> string"

definition applytfms ::
  "tools \<Rightarrow> job \<Rightarrow> state \<Rightarrow> (error + (string \<times> string)) \<times> state" where
  "applytfms T args st =
     (case args of (in_file, in_xform, index, newpath) \<Rightarrow>
        let out_file = out_file_name T in_file index newpath;
            copy_dtype = (case ifargs st ''copy_dtype'' of None \<Rightarrow> False | Some v \<Rightarrow> truthy v);
            st1 = st\<lparr>ifargs := (ifargs st)(''copy_dtype'' := None),
                     events := events st @ [Job index]\<rparr>
        in case apply_transforms T in_file in_xform out_file (ifargs st1) (files st1) of
             Inl e \<Rightarrow> (Inl e, st1)
           | Inr fs' \<Rightarrow>
               let st2 = st1\<lparr>files := fs'\<rparr>;
                   cmdline = cmdline_of T in_file in_xform out_file (ifargs st1)
               in if copy_dtype
                  then case load_image fs' out_file of
                         Inl e \<Rightarrow> (Inl e, st2)
                       | Inr (out_dtype, arr) \<Rightarrow>
                           (case load_image fs' in_file of
                              Inl e \<Rightarrow> (Inl e, st2)
                            | Inr (in_dtype, in_arr) \<Rightarrow>
                                if in_dtype \<noteq> out_dtype
                                then (Inr (out_file, cmdline),
                                      st2\<lparr>files := fs'(out_file \<mapsto>
                                                     Image in_dtype (recast T out_dtype in_dtype arr)),
                                          events := events st2 @ [ToFilename out_file]\<rparr>)
                                else (Inr (out_file, cmdline), st2))
                  else (Inr (out_file, cmdline), st2))"

text \<open>The list comprehension of the sequential branch: one job after the other.\<close>

fun run_jobs :: "tools \<Rightarrow> job list \<Rightarrow> state \<Rightarrow> (error + (string \<times> string) list) \<times> state" where
  "run_jobs T [] st = (Inr [], st)"
| "run_jobs T (j # js) st =
     (case applytfms T j st of
        (Inl e, st') \<Rightarrow> (Inl e, st')
      | (Inr r, st') \<Rightarrow>
          (case run_jobs T js st' of
             (Inl e, st'') \<Rightarrow> (Inl e, st'')
           | (Inr rs, st'') \<Rightarrow> (Inr (r # rs), st'')))"

text \<open>
  \<open>ThreadPoolExecutor.map\<close>. Each job's result goes to the future of its own index, and
  \<open>map\<close> yields the futures' results in the order of submission, raising the first
  exception it meets there. \<open>poll\<close> is that iteration over a list of futures: nothing
  while it waits for a future that is not done, else the exception or all the results.
\<close>

fun poll :: "(nat \<rightharpoonup> error + 'r) \<Rightarrow> nat list \<Rightarrow> (error + 'r list) option" where
  "poll futures [] = Some (Inr [])"
| "poll futures (i # rest) =
     (case futures i of
        None \<Rightarrow> None
      | Some (Inl e) \<Rightarrow> Some (Inl e)
      | Some (Inr r) \<Rightarrow>
          (case poll futures rest of
             None \<Rightarrow> None
           | Some (Inl e) \<Rightarrow> Some (Inl e)
           | Some (Inr rs) \<Rightarrow> Some (Inr (r # rs))))"

definition failure_seen :: "nat \<Rightarrow> (nat \<rightharpoonup> error + 'r) \<Rightarrow> bool" where
  "failure_seen n futures = (case poll futures [0 ..< n] of Some (Inl e) \<Rightarrow> True | _ \<Rightarrow> False)"

definition gather :: "(nat \<rightharpoonup> error + 'r) \<Rightarrow> nat list \<Rightarrow> error + 'r list" where
  "gather futures idxs = (case poll futures idxs of None \<Rightarrow> Inl CancelledError | Some r \<Rightarrow> r)"

text \<open>
  The order in which the pool runs and completes the jobs is not fixed, so it is a
  parameter: \<open>completes\<close> is any list of numbers, read as "these jobs first, in this order,
  then the others". Once the iteration has met an exception, \<open>map\<close> cancels the futures
  that have not started; \<open>late\<close> is the number of jobs that still run after that moment
  (those a worker had taken already). A run without a failure runs every job.
\<close>

record schedule =
  completes :: "nat list"
  late :: nat

definition complete_schedule :: "nat \<Rightarrow> nat list \<Rightarrow> nat list" where
  "complete_schedule n sched =
     (let first = remdups (filter (\<lambda>i. i < n) sched)
      in first @ filter (\<lambda>i. i \<notin> set first) [0 ..< n])"

fun run_scheduled ::
  "tools \<Rightarrow> job list \<Rightarrow> nat \<Rightarrow> nat list \<Rightarrow> (nat \<rightharpoonup> error + (string \<times> string)) \<Rightarrow> state
     \<Rightarrow> (nat \<rightharpoonup> error + (string \<times> string)) \<times> state" where
  "run_scheduled T jobs extra [] futures st = (futures, st)"
| "run_scheduled T jobs extra (i # rest) futures st =
     (if failure_seen (length jobs) futures \<and> extra = 0 then (futures, st)
      else case applytfms T (jobs ! i) st of
             (r, st') \<Rightarrow>
               run_scheduled T jobs (if failure_seen (length jobs) futures then extra - 1 else extra)
                 rest (futures(i \<mapsto> r)) st')"

definition pool_map ::
  "tools \<Rightarrow> int option \<Rightarrow> schedule \<Rightarrow> job list \<Rightarrow> state
     \<Rightarrow> (error + (string \<times> string) list) \<times> state" where
  "pool_map T max_workers sched jobs st =
     (case run_scheduled T jobs (late sched) (complete_schedule (length jobs) (completes sched))
             Map.empty (st\<lparr>events := events st @ [PoolCreated max_workers]\<rparr>) of
        (futures, st') \<Rightarrow> (gather futures [0 ..< length jobs], st'))"

text \<open>\<open>os.path.join(a, b)\<close> for a relative \<open>b\<close>.\<close>

definition path_join :: "string \<Rightarrow> string \<Rightarrow> string" where
  "path_join a b = (if a = [] \<or> last a = CHR ''/'' then a @ b else a @ ''/'' @ b)"

text \<open>\<open>tmp_folder.cleanup()\<close>: the directory goes, with the files below it.\<close>

definition cleanup :: "string \<Rightarrow> state \<Rightarrow> state" where
  "cleanup tmp st =
     st\<lparr>dirs := dirs st - {tmp},
        files := (\<lambda>p. if prefix (tmp @ ''/'') p then None else files st p)\<rparr>"

record inputs =
  input_image :: "string list"
  transforms :: "string list list"
  num_threads :: int
  save_cmd :: bool
  other_inputs :: "string \<rightharpoonup> argval"

record results =
  out_files :: "string list"
  log_cmdline :: "string option"

definition log_delimiter :: string where
  "log_delimiter = newline @ ''-------'' @ newline"

text \<open>
  \<open>MultiApplyTransforms._run_interface\<close>, in four parts. \<open>other_inputs\<close> is what
  \<open>self.inputs.get()\<close> holds beside the four inputs popped first; \<open>prepare_ifargs\<close> is the
  bag after the pops. \<open>make_jobs\<close> is the list of argument tuples both branches build.
  \<open>dispatch\<close> is the choice between the two branches. \<open>collect\<close> is what follows them:
  the cleanup of the temporary folder, the output names, the command log.
\<close>

definition prepare_ifargs :: "inputs \<Rightarrow> (string \<rightharpoonup> argval)" where
  "prepare_ifargs inp = (other_inputs inp)
     (''input_image'' := None, ''transforms'' := None, ''num_threads'' := None,
      ''save_cmd'' := None, ''environ'' := None, ''ignore_exception'' := None,
      ''terminal_output'' := None, ''output_image'' := None)"

definition make_jobs :: "string \<Rightarrow> string list \<Rightarrow> string list list \<Rightarrow> job list" where
  "make_jobs cwd in_files xfms_list =
     map (\<lambda>(i, in_file, in_xfm). (in_file, in_xfm, i, cwd)) (enumerate 0 (zip in_files xfms_list))"

definition dispatch ::
  "tools \<Rightarrow> int \<Rightarrow> schedule \<Rightarrow> job list \<Rightarrow> state \<Rightarrow> (error + (string \<times> string) list) \<times> state" where
  "dispatch T threads sched jobs st =
     (let workers = (if threads < 1 then None else Some threads)
      in if workers = Some 1 then run_jobs T jobs st
         else pool_map T workers sched jobs st)"

definition collect ::
  "string \<Rightarrow> bool \<Rightarrow> string \<Rightarrow> (string \<times> string) list \<Rightarrow> state \<Rightarrow> (error + results) \<times> state" where
  "collect cwd save tmp_folder outs st =
     (let st' = cleanup tmp_folder st
      in if save
         then
           let log = path_join cwd ''command.txt''
           in (Inr \<lparr>out_files = map fst outs, log_cmdline = Some log\<rparr>,
               st'\<lparr>files := (files st')(log \<mapsto> Text (join log_delimiter (map snd outs) @ newline))\<rparr>)
         else (Inr \<lparr>out_files = map fst outs, log_cmdline = None\<rparr>, st'))"

definition MultiApplyTransforms_run_interface ::
  "tools \<Rightarrow> string \<Rightarrow> schedule \<Rightarrow> inputs \<Rightarrow> state \<Rightarrow> (error + results) \<times> state" where
  "MultiApplyTransforms_run_interface T cwd sched inp st =
     (let in_files = input_image inp;
          num_files = length in_files;
          tmp_folder = temp_name T cwd (dirs st);
          st1 = st\<lparr>ifargs := prepare_ifargs inp, dirs := insert tmp_folder (dirs st)\<rparr>;
          xfms_list = transforms inp
      in if length xfms_list \<noteq> num_files then (Inl AssertionError, st1)
         else case dispatch T (num_threads inp) sched (make_jobs cwd in_files xfms_list) st1 of
                (Inl e, st2) \<Rightarrow> (Inl e, st2)
              | (Inr outs, st2) \<Rightarrow> collect cwd (save_cmd inp) tmp_folder outs st2)"

text \<open>
  What the executor is expected to hand back: the output names and the log, both in the
  order of the input volumes. \<open>job_ifargs\<close> is the option bag every \<open>ApplyTransforms\<close>
  receives, \<open>copy_dtype\<close> removed.
\<close>

definition job_ifargs :: "inputs \<Rightarrow> (string \<rightharpoonup> argval)" where
  "job_ifargs inp = (prepare_ifargs inp)(''copy_dtype'' := None)"

definition expected :: "tools \<Rightarrow> (string \<rightharpoonup> argval) \<Rightarrow> job \<Rightarrow> string \<times> string" where
  "expected T args j = (case j of (in_file, in_xform, index, newpath) \<Rightarrow>
     (out_file_name T in_file index newpath,
      cmdline_of T in_file in_xform (out_file_name T in_file index newpath) args))"

definition expected_outputs :: "tools \<Rightarrow> string \<Rightarrow> inputs \<Rightarrow> string list" where
  "expected_outputs T cwd inp =
     map (\<lambda>(i, in_file). out_file_name T in_file i cwd) (enumerate 0 (input_image inp))"

definition expected_log :: "tools \<Rightarrow> string \<Rightarrow> inputs \<Rightarrow> string" where
  "expected_log T cwd inp =
     join log_delimiter
       (map (\<lambda>(i, in_file, in_xfm).
               cmdline_of T in_file in_xfm (out_file_name T in_file i cwd) (job_ifargs inp))
            (enumerate 0 (zip (input_image inp) (transforms inp)))) @ newline"

text \<open>The pools created and the jobs started, read off a trace.\<close>

fun pools_of :: "event list \<Rightarrow> int option list" where
  "pools_of [] = []"
| "pools_of (PoolCreated m # evs) = m # pools_of evs"
| "pools_of (_ # evs) = pools_of evs"

fun jobs_of :: "event list \<Rightarrow> nat list" where
  "jobs_of [] = []"
| "jobs_of (Job i # evs) = i # jobs_of evs"
| "jobs_of (_ # evs) = jobs_of evs"

definition job_index :: "job \<Rightarrow> nat" where
  "job_index j = (case j of (in_file, in_xform, index, newpath) \<Rightarrow> index)"

text \<open>The state in which the jobs start: the option bag prepared, the temporary folder made.\<close>

definition start_state :: "tools \<Rightarrow> string \<Rightarrow> inputs \<Rightarrow> state \<Rightarrow> state" where
  "start_state T cwd inp st =
     st\<lparr>ifargs := prepare_ifargs inp, dirs := insert (temp_name T cwd (dirs st)) (dirs st)\<rparr>"

subsection \<open>rotation\_matrix\_from\_transform\<close>

text \<open>
  The parsing of the captured standard output, a bytes object. \<open>float\<close> is a parameter:
  it maps a token to a number or to nothing (a \<open>ValueError\<close>). The rows are returned as
  the nested list handed to \<open>np.array\<close>.
\<close>

definition start_lines :: "string list \<Rightarrow> nat list" where
  "start_lines lines = map fst (filter (\<lambda>(linenum, contents). contents = ''Matrix:'') (enumerate 0 lines))"

definition float_rows :: "(string \<Rightarrow> 'f option) \<Rightarrow> string list \<Rightarrow> error + 'f list list" where
  "float_rows py_float matrix_lines =
     (case those (map (\<lambda>line. those (map py_float (py_words line))) matrix_lines) of
        None \<Rightarrow> Inl ValueError_float
      | Some rows \<Rightarrow> Inr rows)"

definition rotation_matrix_of_output :: "(string \<Rightarrow> 'f option) \<Rightarrow> string \<Rightarrow> error + 'f list list" where
  "rotation_matrix_of_output py_float out =
     (let result = str_of_bytes out in
      if length result = 0 then Inl ValueError_no_transform_info
      else
        let lines = map strip (py_split [CHR 0x5C, CHR ''n''] result);
            starts = start_lines lines
        in if length starts = 0 then Inl ValueError_unable_to_read
           else if length starts > 1 then Inl ValueError_too_many
           else let start_line = hd starts;
                    matrix_lines = take 3 (drop (start_line + 1) lines)
                in float_rows py_float matrix_lines)"

definition rotation_matrix_from_transform ::
  "process \<Rightarrow> (string \<Rightarrow> 'f option) \<Rightarrow> string \<Rightarrow> fsys \<Rightarrow> error + 'f list list" where
  "rotation_matrix_from_transform popen py_float transform fs =
     (case popen (py_words (''antsTransformInfo '' @ transform)) fs of
        Inl e \<Rightarrow> Inl e
      | Inr (proc, fs') \<Rightarrow> rotation_matrix_of_output py_float (stdout proc))"

subsection \<open>Example inputs\<close>

text \<open>A disassembly tool that exits with status 0 but writes the affine component only.\<close>

definition half_done_tool :: process where
  "half_done_tool cmd fs =
     Inr (\<lparr>returncode = 0, stdout = [], stderr = []\<rparr>,
          fs\<lparr>files := (files fs)(affine_out ''/w'' \<mapsto> Binary)\<rparr>)"

text \<open>A stand-in for \<open>float\<close> that reads the two tokens 0 and 1.\<close>

definition demo_float :: "string \<Rightarrow> int option" where
  "demo_float s = (if s = ''1'' then Some 1 else if s = ''0'' then Some 0 else None)"

text \<open>A transform-inspection tool that prints nothing.\<close>

definition silent_tool :: process where
  "silent_tool cmd fs = Inr (\<lparr>returncode = 0, stdout = [], stderr = []\<rparr>, fs)"

text \<open>
  An arranger environment in which \<open>F.txt\<close> and \<open>G.txt\<close> are plain text and the
  six characters of the format field at the end of a name are replaced by the number;
  a container of two blocks, and a file system holding it as \<open>F.txt\<close>; the same with a
  space at the end of the container's last line.
\<close>

definition demo_env :: env where
  "demo_env =
     \<lparr>guess_type = (\<lambda>p. if p = ''F.txt'' \<or> p = ''G.txt'' then Some ''text/plain'' else None),
      fname_presuffix = (\<lambda>fname suffix newpath. newpath @ ''/'' @ fname @ suffix),
      str_format = (\<lambda>template n. take (length template - 6) template @ pct_0d 5 n)\<rparr>"

definition demo_blocks :: "block list" where
  "demo_blocks =
     [(''Transform: A'', ''Parameters: 1 0 0'', ''FixedParameters: 0''),
      (''Transform: B'', ''Parameters: 0 1 2'', ''FixedParameters: 7'')]"

definition demo_fs :: "string \<rightharpoonup> content" where
  "demo_fs = [''F.txt'' \<mapsto> Text (container_text demo_blocks), ''G.txt'' \<mapsto> Text ''no transform'']"

definition spaced_blocks :: "block list" where
  "spaced_blocks =
     [(''Transform: A'', ''Parameters: 1 0 0'', ''FixedParameters: 0''),
      (''Transform: B'', ''Parameters: 0 1 2'', ''FixedParameters: 7 '')]"

definition spaced_fs :: "string \<rightharpoonup> content" where
  "spaced_fs = [''F.txt'' \<mapsto> Text (container_text spaced_blocks)]"

text \<open>
  An executor environment whose apply-transform tool writes a \<open>Float32\<close> copy of its
  input and fails when the input is no image; two volumes of different data types; the
  inputs of a run with four workers, and of a sequential run whose second volume is
  missing; a pool in which volume 1 completes before volume 0; two volumes of the same
  data type and the inputs of a sequential run on them.
\<close>

definition demo_tools :: tools where
  "demo_tools =
     \<lparr>guess_type = (\<lambda>p. None),
      fname_presuffix = (\<lambda>fname suffix newpath. newpath @ ''/'' @ fname @ suffix),
      str_format = (\<lambda>template n. template),
      cmdline_of = (\<lambda>in_file xfm out args. ''apply '' @ in_file @ '' '' @ out),
      apply_transforms = (\<lambda>in_file xfm out args fs.
         case fs in_file of
           Some (Image dt arr) \<Rightarrow> Inr (fs(out \<mapsto> Image Float32 arr))
         | _ \<Rightarrow> Inl (ExternalToolError ''no input'')),
      temp_name = (\<lambda>cwd ds. cwd @ ''/tmp-0''),
      recast = (\<lambda>from_dtype to_dtype arr. arr)\<rparr>"

definition demo_state :: state where
  "demo_state =
     \<lparr>files = [''a.nii'' \<mapsto> Image Int16 [1, 2], ''b.nii'' \<mapsto> Image Float32 [3] ],
      dirs = {''/w''}, ifargs = Map.empty, events = []\<rparr>"

definition demo_inputs :: inputs where
  "demo_inputs =
     \<lparr>input_image = [''a.nii'', ''b.nii''], transforms = [ [''x0.mat''], [''x1.mat''] ],
      num_threads = 4, save_cmd = True,
      other_inputs = [''copy_dtype'' \<mapsto> BoolV True, ''environ'' \<mapsto> StrV ''e'']\<rparr>"

definition failing_inputs :: inputs where
  "failing_inputs = demo_inputs\<lparr>input_image := [''a.nii'', ''c.nii''], num_threads := 1\<rparr>"

definition demo_schedule :: schedule where
  "demo_schedule = \<lparr>completes = [1, 0], late = 0\<rparr>"

definition int16_state :: state where
  "int16_state = demo_state\<lparr>files := [''a.nii'' \<mapsto> Image Int16 [1, 2], ''b.nii'' \<mapsto> Image Int16 [3] ]\<rparr>"

definition sequential_inputs :: inputs where
  "sequential_inputs = demo_inputs\<lparr>num_threads := 1\<rparr>"

section \<open>Properties\<close>

subsection \<open>DisassembleTransform\<close>

text \<open>
  C8. Once the external disassembly call has returned (with any exit status and any
  captured output), the interface raises its "unable to unpack" exception exactly when
  one of the two fixed output files, the affine component or the displacement field, is
  missing; when both exist it returns the two paths, affine first.
\<close>

theorem disassemble_postcondition:
  assumes "popen (disassemble_cmd in_file) fs = Inr (proc, fs')"
  shows "(fst (DisassembleTransform_run_interface popen cwd in_file fs) = Inl Exception_unable_to_unpack
            \<longleftrightarrow> \<not> (path_exists fs' (affine_out cwd) \<and> path_exists fs' (warp_out cwd)))
       \<and> (path_exists fs' (affine_out cwd) \<and> path_exists fs' (warp_out cwd)
            \<longrightarrow> DisassembleTransform_run_interface popen cwd in_file fs
                  = (Inr [affine_out cwd, warp_out cwd], fs'))"
  using assms by (auto simp: DisassembleTransform_run_interface_def)

text \<open>
  The tool exits with status 0 after writing only the affine component: the interface
  raises all the same.
\<close>

theorem disassemble_postcondition_witness:
  "half_done_tool (disassemble_cmd ''c.h5'') \<lparr>files = Map.empty, dirs = {''/w''}\<rparr>
     = Inr (\<lparr>returncode = 0, stdout = [], stderr = []\<rparr>,
        \<lparr>files = [affine_out ''/w'' \<mapsto> Binary], dirs = {''/w''}\<rparr>)
   \<and> fst (DisassembleTransform_run_interface half_done_tool
        ''/w'' ''c.h5'' \<lparr>files = Map.empty, dirs = {''/w''}\<rparr>)
     = Inl Exception_unable_to_unpack"
proof -
  have h: "half_done_tool (disassemble_cmd ''c.h5'') \<lparr>files = Map.empty, dirs = {''/w''}\<rparr>
     = Inr (\<lparr>returncode = 0, stdout = [], stderr = []\<rparr>,
        \<lparr>files = [affine_out ''/w'' \<mapsto> Binary], dirs = {''/w''}\<rparr>)"
    by (simp add: half_done_tool_def)
  have "\<not> path_exists \<lparr>files = [affine_out ''/w'' \<mapsto> Binary], dirs = {''/w''}\<rparr> (warp_out ''/w'')"
    by (simp add: path_exists_def warp_out_def affine_out_def)
  with disassemble_postcondition [where popen = half_done_tool and cwd = "''/w''", OF h] h show ?thesis by simp
qed

subsection \<open>Strings and decimal numbers\<close>

lemma of_char_digit: "d < 10 \<Longrightarrow> (of_char (digit_char d) :: nat) = 48 + d"
  by (simp add: digit_char_def)

lemma digit_char_inj: "a < 10 \<Longrightarrow> b < 10 \<Longrightarrow> digit_char a = digit_char b \<Longrightarrow> a = b"
proof -
  assume a: "a < 10" and b: "b < 10" and e: "digit_char a = digit_char b"
  from e have "(of_char (digit_char a) :: nat) = of_char (digit_char b)" by (simp only:)
  then have "48 + a = 48 + b" by (simp only: of_char_digit [OF a] of_char_digit [OF b])
  then show "a = b" by simp
qed

lemma digit_char_hash: "d < 10 \<Longrightarrow> digit_char d \<noteq> CHR ''#''"
proof
  assume d: "d < 10" and e: "digit_char d = CHR ''#''"
  from e have "(of_char (digit_char d) :: nat) = of_char (CHR ''#'')" by (simp only:)
  then have "48 + d = (35::nat)" by (simp add: of_char_digit [OF d])
  then show False by simp
qed

lemma digit_char_newline: "d < 10 \<Longrightarrow> digit_char d \<noteq> CHR 0x0A"
proof
  assume d: "d < 10" and e: "digit_char d = CHR 0x0A"
  from e have "(of_char (digit_char d) :: nat) = of_char (CHR 0x0A)" by (simp only:)
  then have "48 + d = (10::nat)" by (simp add: of_char_digit [OF d])
  then show False by simp
qed

lemma digit_char_plain: "d < 10 \<Longrightarrow> digit_char d \<noteq> CHR ''#'' \<and> digit_char d \<noteq> CHR 0x0A"
  using digit_char_hash digit_char_newline by blast

lemma string_of_nat_small: "n < 10 \<Longrightarrow> string_of_nat n = [digit_char n]"
  by (subst string_of_nat.simps) simp

lemma string_of_nat_big:
  "\<not> n < 10 \<Longrightarrow> string_of_nat n = string_of_nat (n div 10) @ [digit_char (n mod 10)]"
  by (subst string_of_nat.simps) simp

lemma string_of_nat_nonempty: "string_of_nat n \<noteq> []"
proof (cases "n < 10")
  case True
  then show ?thesis by (simp only: string_of_nat_small [OF True]) simp
next
  case False
  then show ?thesis by (simp only: string_of_nat_big [OF False]) simp
qed

lemma string_of_nat_plain: "c \<in> set (string_of_nat n) \<Longrightarrow> c \<noteq> CHR ''#'' \<and> c \<noteq> CHR 0x0A"
proof (induction n rule: string_of_nat.induct)
  case (1 n)
  show ?case
  proof (cases "n < 10")
    case True
    from "1.prems" have "c = digit_char n"
      by (simp only: string_of_nat_small [OF True]) simp
    with digit_char_plain [OF True] show ?thesis by simp
  next
    case False
    from "1.prems" have "c \<in> set (string_of_nat (n div 10)) \<or> c = digit_char (n mod 10)"
      by (simp only: string_of_nat_big [OF False]) auto
    then show ?thesis
    proof
      assume "c \<in> set (string_of_nat (n div 10))"
      then show ?thesis by (rule "1.IH" [OF False])
    next
      have m: "n mod 10 < 10" by simp
      assume "c = digit_char (n mod 10)"
      with digit_char_plain [OF m] show ?thesis by simp
    qed
  qed
qed

lemma string_of_nat_length:
  assumes "\<not> n < 10"
  shows "2 \<le> length (string_of_nat n)"
proof -
  have "0 < length (string_of_nat (n div 10))"
    using string_of_nat_nonempty [of "n div 10"] by (cases "string_of_nat (n div 10)") simp_all
  moreover have "length (string_of_nat n) = length (string_of_nat (n div 10)) + 1"
    by (simp only: string_of_nat_big [OF assms]) simp
  ultimately show ?thesis by linarith
qed

lemma string_of_nat_inj: "string_of_nat m = string_of_nat n \<Longrightarrow> m = n"
proof (induction m arbitrary: n rule: string_of_nat.induct)
  case (1 m)
  show ?case
  proof (cases "m < 10")
    case m: True
    show ?thesis
    proof (cases "n < 10")
      case True
      from "1.prems" have "[digit_char m] = [digit_char n]"
        by (simp only: string_of_nat_small [OF m] string_of_nat_small [OF True])
      then show ?thesis using digit_char_inj [OF m True] by simp
    next
      case False
      from "1.prems" have "length (string_of_nat n) = length [digit_char m]"
        by (simp only: string_of_nat_small [OF m])
      with string_of_nat_length [OF False] show ?thesis by simp
    qed
  next
    case m: False
    show ?thesis
    proof (cases "n < 10")
      case True
      from "1.prems" have "length (string_of_nat m) = length [digit_char n]"
        by (simp only: string_of_nat_small [OF True])
      with string_of_nat_length [OF m] show ?thesis by simp
    next
      case False
      from "1.prems" have "string_of_nat (m div 10) @ [digit_char (m mod 10)]
                         = string_of_nat (n div 10) @ [digit_char (n mod 10)]"
        using string_of_nat_big [OF m] string_of_nat_big [OF False] by (simp only:)
      then have "string_of_nat (m div 10) = string_of_nat (n div 10)"
        and d: "digit_char (m mod 10) = digit_char (n mod 10)"
        by simp_all
      from "1.IH" [OF m this(1)] have q: "m div 10 = n div 10" .
      have "m mod 10 < 10" "n mod 10 < 10" by simp_all
      from digit_char_inj [OF this d] have r: "m mod 10 = n mod 10" .
      have "m = 10 * (m div 10) + m mod 10" by simp
      also have "\<dots> = 10 * (n div 10) + n mod 10" by (simp only: q r)
      also have "\<dots> = n" by simp
      finally show ?thesis .
    qed
  qed
qed

lemma start_token_inj: "start_token i = start_token j \<Longrightarrow> i = j"
  by (simp add: start_token_def string_of_nat_inj)

lemma start_token_hash: "CHR ''#'' \<in> set (start_token i)"
  by (simp add: start_token_def)

lemma start_token_no_newline: "CHR 0x0A \<notin> set (start_token i)"
  using string_of_nat_plain [of "CHR 0x0A" i] by (auto simp: start_token_def)

lemma start_token_0: "start_token 0 = ''#Transform 0''"
  unfolding start_token_def by code_simp


lemma strip_trailing:
  assumes "s \<noteq> []" "\<not> is_space (hd s)" "\<not> is_space (last s)" "\<forall>c \<in> set ws. is_space c"
  shows "strip (s @ ws) = s"
proof -
  from assms(1,2) have "dropWhile is_space (s @ ws) = s @ ws"
    by (cases s) simp_all
  moreover have "dropWhile is_space (rev ws @ rev s) = dropWhile is_space (rev s)"
    using assms(4) by (intro dropWhile_append2) simp
  moreover have "dropWhile is_space (rev s) = rev s"
    using assms(1,3) by (cases "rev s") (simp_all add: last_rev [symmetric] del: last_rev)
  ultimately show ?thesis by (simp add: strip_def)
qed

lemma join_cons: "ls \<noteq> [] \<Longrightarrow> join sep (l # ls) = l @ sep @ join sep ls"
  by (cases ls) simp_all

lemma join_append:
  "xs \<noteq> [] \<Longrightarrow> ys \<noteq> [] \<Longrightarrow> join sep (xs @ ys) = join sep xs @ sep @ join sep ys"
proof (induction xs)
  case Nil
  then show ?case by simp
next
  case (Cons x xs)
  show ?case
  proof (cases "xs = []")
    case True
    with Cons.prems show ?thesis by (simp add: join_cons)
  next
    case False
    with Cons show ?thesis by (simp add: join_cons)
  qed
qed

lemma hd_join: "l \<noteq> [] \<Longrightarrow> hd (join sep (l # ls)) = hd l"
  by (cases ls) simp_all

lemma last_join:
  "ls \<noteq> [] \<Longrightarrow> last ls \<noteq> [] \<Longrightarrow> join sep ls \<noteq> [] \<and> last (join sep ls) = last (last ls)"
  by (induction sep ls rule: join.induct) auto

lemma split_from_no_sep: "c \<notin> set l \<Longrightarrow> split_from [c] cur l = [cur @ l]"
proof (induction l arbitrary: cur)
  case Nil
  show ?case by simp
next
  case (Cons a l)
  then have "c \<noteq> a" "c \<notin> set l" by auto
  then show ?case using Cons.IH [of "cur @ [a]"] by simp
qed

lemma split_from_sep:
  "c \<notin> set l \<Longrightarrow> split_from [c] cur (l @ c # rest) = (cur @ l) # split_from [c] [] rest"
proof (induction l arbitrary: cur)
  case Nil
  show ?case by simp
next
  case (Cons a l)
  then have "c \<noteq> a" "c \<notin> set l" by auto
  then show ?case using Cons.IH [of "cur @ [a]"] by simp
qed

lemma split_join:
  "ls \<noteq> [] \<Longrightarrow> \<forall>l \<in> set ls. c \<notin> set l \<Longrightarrow> py_split [c] (join [c] ls) = ls"
proof (induction ls)
  case Nil
  then show ?case by simp
next
  case (Cons l ls)
  show ?case
  proof (cases "ls = []")
    case True
    with Cons.prems show ?thesis by (simp add: py_split_def split_from_no_sep)
  next
    case False
    with Cons have "split_from [c] [] (join [c] ls) = ls" by (simp add: py_split_def)
    moreover from Cons.prems have "c \<notin> set l" by simp
    ultimately show ?thesis
      using split_from_sep [of c l "[]" "join [c] ls"] False
      by (simp add: py_split_def join_cons)
  qed
qed

lemma index_of_append: "x \<notin> set xs \<Longrightarrow> index_of x (xs @ x # ys) = Some (length xs)"
  by (induction xs) auto

lemma blocks_from_Nil: "blocks_from j [] = []"
  by (simp add: blocks_from_def)

lemma blocks_from_Cons: "blocks_from j (b # bs) = block_lines j b @ blocks_from (Suc j) bs"
  by (simp add: blocks_from_def)

lemma blocks_from_append:
  "blocks_from j (xs @ ys) = blocks_from j xs @ blocks_from (j + length xs) ys"
  by (simp add: blocks_from_def enumerate_append_eq)

lemma length_blocks_from: "length (blocks_from j bs) = 4 * length bs"
  by (induction bs arbitrary: j) (auto simp: blocks_from_Nil blocks_from_Cons block_lines_def)

lemma container_lines_blocks: "container_lines bs = ''#Insight Transform File V1.0'' # blocks_from 0 bs"
  by (simp add: container_lines_def)

lemma data_line_not_token: "data_line l \<Longrightarrow> l \<noteq> start_token i"
  using start_token_hash [of i] by (auto simp: data_line_def)

lemma blocks_from_no_token:
  "list_all wf_block bs \<Longrightarrow> i < j \<or> j + length bs \<le> i \<Longrightarrow> start_token i \<notin> set (blocks_from j bs)"
proof (induction bs arbitrary: j)
  case Nil
  then show ?case by (simp add: blocks_from_Nil)
next
  case (Cons b bs)
  obtain t ps fps where b: "b = (t, ps, fps)" by (cases b)
  from Cons.prems(1) have w: "wf_block (t, ps, fps)" and r: "list_all wf_block bs"
    by (simp_all add: b)
  from w have d: "data_line t" "data_line ps" "data_line fps"
    by (simp_all add: wf_block_def)
  from Cons.prems(2) have "i \<noteq> j" and "i < Suc j \<or> Suc j + length bs \<le> i" by auto
  with Cons.IH [OF r, of "Suc j"] d data_line_not_token [of _ i] start_token_inj [of i j]
  show ?case by (auto simp: blocks_from_Cons block_lines_def b)
qed

lemma blocks_from_newline_free:
  "list_all wf_block bs \<Longrightarrow> l \<in> set (blocks_from j bs) \<Longrightarrow> CHR 0x0A \<notin> set l"
proof (induction bs arbitrary: j)
  case Nil
  then show ?case by (simp add: blocks_from_Nil)
next
  case (Cons b bs)
  obtain t ps fps where b: "b = (t, ps, fps)" by (cases b)
  from Cons.prems(1) have w: "wf_block (t, ps, fps)" and r: "list_all wf_block bs"
    by (simp_all add: b)
  from w have d: "data_line t" "data_line ps" "data_line fps"
    by (simp_all add: wf_block_def)
  from Cons.prems(2) have "l = start_token j \<or> l = t \<or> l = ps \<or> l = fps \<or> l \<in> set (blocks_from (Suc j) bs)"
    by (auto simp: blocks_from_Cons block_lines_def b)
  with Cons.IH [OF r] d start_token_no_newline [of j] show ?case
    by (auto simp: data_line_def)
qed

lemma blocks_from_split:
  assumes "i < length bs"
  shows "blocks_from 0 bs
           = blocks_from 0 (take i bs) @ block_lines i (bs ! i) @ blocks_from (Suc i) (drop (Suc i) bs)"
proof -
  have "bs = take i bs @ bs ! i # drop (Suc i) bs"
    using assms by (simp add: id_take_nth_drop [symmetric])
  then have "blocks_from 0 bs = blocks_from 0 (take i bs @ bs ! i # drop (Suc i) bs)" by simp
  also have "\<dots> = blocks_from 0 (take i bs) @ blocks_from i (bs ! i # drop (Suc i) bs)"
    using assms by (simp add: blocks_from_append min_def)
  finally show ?thesis by (simp add: blocks_from_Cons)
qed

lemma index_of_block:
  assumes "list_all wf_block bs" "i < length bs"
  shows "index_of (start_token i) (blocks_from 0 bs) = Some (4 * i)"
    and "block_data (blocks_from 0 bs) (4 * i) = (case bs ! i of (t, ps, fps) \<Rightarrow> [t, ps, fps])"
proof -
  let ?pre = "blocks_from 0 (take i bs)"
  let ?post = "blocks_from (Suc i) (drop (Suc i) bs)"
  obtain t ps fps where b: "bs ! i = (t, ps, fps)" by (cases "bs ! i")
  have eq: "blocks_from 0 bs = ?pre @ start_token i # [t, ps, fps] @ ?post"
    using blocks_from_split [OF assms(2)] by (simp add: block_lines_def b)
  have len: "length ?pre = 4 * i"
    using assms(2) by (simp add: length_blocks_from)
  have "list_all wf_block (take i bs)"
    using assms(1) by (auto simp: list_all_iff dest: in_set_takeD)
  then have "start_token i \<notin> set ?pre"
    using assms(2) by (intro blocks_from_no_token) auto
  from index_of_append [OF this] show "index_of (start_token i) (blocks_from 0 bs) = Some (4 * i)"
    by (simp add: eq len)
  show "block_data (blocks_from 0 bs) (4 * i) = (case bs ! i of (t, ps, fps) \<Rightarrow> [t, ps, fps])"
    by (simp add: block_data_def eq b len)
qed

lemma is_space_hash: "\<not> is_space (CHR ''#'')"
  by (simp add: is_space_def)

lemma is_space_newline: "is_space (CHR 0x0A)"
  by (simp add: is_space_def)

lemma last_blocks_from:
  assumes "bs \<noteq> []"
  shows "blocks_from j bs \<noteq> [] \<and> last (blocks_from j bs) = snd (snd (last bs))"
proof -
  from assms have "bs = butlast bs @ [last bs]" by simp
  then have "blocks_from j bs = blocks_from j (butlast bs) @ blocks_from (j + length (butlast bs)) [last bs]"
    by (metis blocks_from_append)
  then show ?thesis
    by (cases "last bs") (simp add: blocks_from_Cons blocks_from_Nil block_lines_def)
qed

lemma header_newline_free: "CHR 0x0A \<notin> set ''#Insight Transform File V1.0''"
  by simp

lemma strip_container:
  assumes "well_formed bs" "clean_end (last_line bs)"
  shows "strip (container_text bs) = join newline (container_lines bs)"
proof -
  from assms(1) have ne: "bs \<noteq> []" and wf: "list_all wf_block bs"
    by (simp_all add: well_formed_def)
  let ?ls = "container_lines bs"
  from assms(2) have f: "snd (snd (last bs)) \<noteq> []" "\<not> is_space (last (snd (snd (last bs))))"
    by (simp_all add: clean_end_def last_line_def)
  from last_blocks_from [OF ne, of 0] have b: "blocks_from 0 bs \<noteq> []"
    and l: "last (blocks_from 0 bs) = snd (snd (last bs))" by simp_all
  have "last ?ls = snd (snd (last bs))"
    using b l by (simp add: container_lines_blocks)
  with f last_join [of ?ls newline] have
    n: "join newline ?ls \<noteq> []" and e: "\<not> is_space (last (join newline ?ls))"
    by (simp_all add: container_lines_blocks)
  have "hd (join newline ?ls) = CHR ''#''"
    by (simp add: container_lines_blocks hd_join)
  with is_space_hash have h: "\<not> is_space (hd (join newline ?ls))" by simp
  have "\<forall>c \<in> set newline. is_space c"
    by (simp add: newline_def is_space_newline)
  from strip_trailing [OF n h e this] show ?thesis
    by (simp add: container_text_def)
qed

lemma itk_lines_container:
  assumes "well_formed bs" "clean_end (last_line bs)"
  shows "itk_lines (strip (container_text bs)) = blocks_from 0 bs"
proof -
  from assms(1) have wf: "list_all wf_block bs" by (simp add: well_formed_def)
  have "\<forall>l \<in> set (container_lines bs). CHR 0x0A \<notin> set l"
    using blocks_from_newline_free [OF wf] header_newline_free
    by (auto simp: container_lines_blocks)
  then have "py_split [CHR 0x0A] (join [CHR 0x0A] (container_lines bs)) = container_lines bs"
    by (intro split_join) (simp_all add: container_lines_blocks)
  then show ?thesis
    by (simp add: itk_lines_def strip_container [OF assms] newline_def container_lines_blocks)
qed

lemma xform_text_container:
  assumes "well_formed bs" "clean_end (last_line bs)" "i < length bs"
  shows "xform_text (itk_lines (strip (container_text bs))) i = Inr (standalone_text (bs ! i))"
proof -
  from assms(1) have wf: "list_all wf_block bs" by (simp add: well_formed_def)
  obtain t ps fps where b: "bs ! i = (t, ps, fps)" by (cases "bs ! i")
  from index_of_block [OF wf assms(3)] b show ?thesis
    by (simp add: xform_text_def itk_lines_container [OF assms(1,2)] next_xform_def
          standalone_text_def base_xform_def)
qed

lemma container_text_single: "container_text [b] = standalone_text b"
  by (cases b)
     (simp add: container_text_def container_lines_def blocks_from_def block_lines_def
        standalone_text_def start_token_0)

lemma data_line_hash_free: "data_line l \<Longrightarrow> CHR ''#'' \<notin> set l"
  unfolding data_line_def by blast

lemma count_sub_skip:
  "CHR ''#'' \<notin> set a \<Longrightarrow> count_sub ''#Transform'' (a @ s) = count_sub ''#Transform'' s"
proof (induction a)
  case Nil
  show ?case by simp
next
  case (Cons c a)
  then have "c \<noteq> CHR ''#''" "CHR ''#'' \<notin> set a" by auto
  then show ?case using Cons.IH by simp
qed

lemma count_sub_token:
  "count_sub ''#Transform'' (start_token j @ s) = Suc (count_sub ''#Transform'' s)"
proof -
  have "CHR ''#'' \<notin> set (CHR '' '' # string_of_nat j)"
    using string_of_nat_plain [of "CHR ''#''" j] by auto
  from count_sub_skip [OF this, of s] show ?thesis
    by (simp add: start_token_def)
qed

lemma count_sub_header:
  "count_sub ''#Transform'' (''#Insight Transform File V1.0'' @ s) = count_sub ''#Transform'' s"
proof -
  have "CHR ''#'' \<notin> set ''Insight Transform File V1.0''" by simp
  from count_sub_skip [OF this, of s] show ?thesis by simp
qed

lemma count_sub_blocks:
  "list_all wf_block bs \<Longrightarrow> count_sub ''#Transform'' (join newline (blocks_from j bs)) = length bs"
proof (induction bs arbitrary: j)
  case Nil
  show ?case by (simp add: blocks_from_Nil)
next
  case (Cons b bs)
  obtain t ps fps where b: "b = (t, ps, fps)" by (cases b)
  from Cons.prems have w: "wf_block (t, ps, fps)" and r: "list_all wf_block bs"
    by (simp_all add: b)
  from w have "data_line t" "data_line ps" "data_line fps"
    by (simp_all add: wf_block_def)
  then have d: "CHR ''#'' \<notin> set t" "CHR ''#'' \<notin> set ps" "CHR ''#'' \<notin> set fps"
    by (simp_all add: data_line_hash_free)
  define junk where "junk = newline @ t @ newline @ ps @ newline @ fps"
  have j: "CHR ''#'' \<notin> set junk" using d by (simp add: junk_def newline_def)
  have one: "join newline (block_lines j b) = start_token j @ junk"
    by (simp add: b block_lines_def junk_def)
  show ?case
  proof (cases "bs = []")
    case True
    have "join newline (blocks_from j (b # bs)) = start_token j @ junk @ []"
      using one by (simp add: True blocks_from_Cons blocks_from_Nil)
    then have "count_sub ''#Transform'' (join newline (blocks_from j (b # bs)))
                 = Suc (count_sub ''#Transform'' (junk @ []))"
      by (simp only: count_sub_token)
    also have "\<dots> = Suc (count_sub ''#Transform'' [])"
      by (simp only: count_sub_skip [OF j])
    finally show ?thesis by (simp add: True)
  next
    case False
    then have ne: "blocks_from (Suc j) bs \<noteq> []" using last_blocks_from by blast
    define rest where "rest = join newline (blocks_from (Suc j) bs)"
    have n: "CHR ''#'' \<notin> set (junk @ newline)" using j by (simp add: newline_def)
    have bl: "block_lines j b \<noteq> []" by (simp add: b block_lines_def)
    have "join newline (blocks_from j (b # bs)) = join newline (block_lines j b) @ newline @ rest"
      unfolding blocks_from_Cons rest_def by (rule join_append [OF bl ne])
    also have "\<dots> = start_token j @ (junk @ newline) @ rest"
      by (simp only: one append_assoc)
    finally have "count_sub ''#Transform'' (join newline (blocks_from j (b # bs)))
                 = Suc (count_sub ''#Transform'' ((junk @ newline) @ rest))"
      by (simp only: count_sub_token)
    also have "\<dots> = Suc (count_sub ''#Transform'' rest)"
      by (simp only: count_sub_skip [OF n])
    also have "\<dots> = Suc (length bs)"
      unfolding rest_def by (simp only: Cons.IH [OF r])
    finally show ?thesis by simp
  qed
qed

lemma count_sub_container:
  assumes "well_formed bs" "clean_end (last_line bs)"
  shows "count_sub ''#Transform'' (strip (container_text bs)) = length bs"
proof -
  from assms(1) have ne: "bs \<noteq> []" and wf: "list_all wf_block bs"
    by (simp_all add: well_formed_def)
  from last_blocks_from [OF ne, of 0] have b: "blocks_from 0 bs \<noteq> []" by simp
  have n: "CHR ''#'' \<notin> set newline" by (simp add: newline_def)
  have "join newline (container_lines bs)
          = ''#Insight Transform File V1.0'' @ newline @ join newline (blocks_from 0 bs)"
    using b by (simp add: container_lines_blocks join_cons)
  then show ?thesis
    using count_sub_skip [OF n, of "join newline (blocks_from 0 bs)"] count_sub_blocks [OF wf, of 0]
    by (simp only: strip_container [OF assms] count_sub_header)
qed

lemma prefix_container:
  assumes "well_formed bs" "clean_end (last_line bs)"
  shows "prefix ''#Insight Transform File'' (strip (container_text bs))"
proof -
  from assms(1) have ne: "bs \<noteq> []" by (simp add: well_formed_def)
  from last_blocks_from [OF ne, of 0] have b: "blocks_from 0 bs \<noteq> []" by simp
  then show ?thesis
    by (simp add: strip_container [OF assms] container_lines_blocks join_cons)
qed

subsection \<open>The arranger\<close>

lemma arrange_loop_constant:
  "\<forall>p \<in> set xs. constant_case E fs (snd p) \<Longrightarrow>
   arrange_loop E num_files tmp xs xfms_T fs
     = (Inr (xfms_T @ map (\<lambda>p. replicate (nat num_files) (snd p)) xs), fs)"
proof (induction xs arbitrary: xfms_T)
  case Nil
  then show ?case by simp
next
  case (Cons p xs)
  obtain i tf where p: "p = (i, tf)" by (cases p)
  from Cons.prems have c: "constant_case E fs tf" and rest: "\<forall>p \<in> set xs. constant_case E fs (snd p)"
    by (simp_all add: p)
  from c show ?case
    unfolding p
    by (auto simp: constant_case_def read_text_def Let_def Cons.IH [OF rest]
             split: option.splits content.splits)
qed

lemma zip_star_uniform:
  assumes "rows \<noteq> []" "\<forall>r \<in> set rows. length r = n"
  shows "zip_star rows = map (\<lambda>j. map (\<lambda>r. r ! j) rows) [0 ..< n]"
proof -
  from assms have "set (map length rows) = {n}" by (cases rows) auto
  then show ?thesis using assms(1) by (simp add: zip_star_def)
qed

lemma zip_star_replicate:
  assumes "chain \<noteq> []"
  shows "zip_star (map (replicate n) chain) = replicate n chain"
proof -
  have "zip_star (map (replicate n) chain)
          = map (\<lambda>j. map (\<lambda>r. r ! j) (map (replicate n) chain)) [0 ..< n]"
    using assms by (intro zip_star_uniform) auto
  also have "\<dots> = replicate n chain"
    by (rule nth_equalityI) (auto simp: map_idI)
  finally show ?thesis .
qed

lemma snd_enumerate: "map snd (enumerate k xs) = xs"
  by (simp add: enumerate_eq_zip)

text \<open>
  A chain with at least one source, all of them constant-case: every one of the
  \<open>num_files\<close> assignments is the chain itself, and no file is written.
\<close>

lemma arrange_constant_nonempty:
  assumes "chain \<noteq> []"
      and "\<forall>tf \<in> set chain. constant_case E fs tf"
  shows "arrange_xfms E chain num_files tmp fs = (Inr (replicate (nat num_files) chain), fs)"
proof -
  have "\<forall>p \<in> set (enumerate 0 chain). constant_case E fs (snd p)"
    using assms(2) by (auto simp: in_set_enumerate_eq)
  then have "arrange_loop E num_files tmp (enumerate 0 chain) [] fs
          = (Inr (map (\<lambda>p. replicate (nat num_files) (snd p)) (enumerate 0 chain)), fs)"
    using arrange_loop_constant [of "enumerate 0 chain" E fs num_files tmp "[]"] by simp
  moreover have "map (\<lambda>p. replicate (nat num_files) (snd p)) (enumerate 0 chain)
          = map (replicate (nat num_files)) chain"
    using snd_enumerate [of 0 chain] by (metis (no_types, lifting) map_map comp_def map_eq_conv)
  ultimately show ?thesis
    using zip_star_replicate [OF assms(1), of "nat num_files"] by (simp add: arrange_xfms_def)
qed

lemma arrange_loop_Nil: "arrange_loop E num_files tmp (enumerate 0 []) [] fs = (Inr [], fs)"
  by simp

text \<open>
  C3. For a chain of constant-case sources and \<open>N \<ge> 1\<close> volumes the specification
  promises \<open>N\<close> assignments, all equal to the chain. The empty chain is such a chain;
  for three volumes the arranger does not return three empty assignments: the
  transposition of an empty table has no column, so it returns no assignment at all.
\<close>

theorem constant_chain_empty:
  "arrange_xfms E [] 3 tmp fs \<noteq> (Inr (replicate (nat 3) []), fs)"
  using arrange_loop_Nil [of E 3 tmp fs] by (simp add: arrange_xfms_def zip_star_def)

lemma arrange_loop_append:
  "arrange_loop E num_files tmp (xs @ ys) xfms_T fs =
     (case arrange_loop E num_files tmp xs xfms_T fs of
        (Inl e, fs') \<Rightarrow> (Inl e, fs')
      | (Inr xfms_T', fs') \<Rightarrow> arrange_loop E num_files tmp ys xfms_T' fs')"
proof (induction xs arbitrary: xfms_T fs)
  case Nil
  then show ?case by simp
next
  case (Cons p xs)
  obtain i tf where p: "p = (i, tf)" by (cases p)
  show ?case
    unfolding p
    by (simp add: Cons.IH Let_def split: sum.splits prod.splits)
qed

lemma arrange_loop_mismatch:
  assumes "guess_type E tf = Some ''text/plain''"
      and "fs tf = Some (Text raw)"
      and "prefix ''#Insight Transform File'' (strip raw)"
      and "count_sub ''#Transform'' (strip raw) = k"
      and "k \<noteq> 1" and "int k \<noteq> num_files"
  shows "arrange_loop E num_files tmp ((i, tf) # rest) xfms_T fs
           = (Inl (RuntimeError_count_mismatch k num_files), fs)"
  using assms by (simp add: read_text_def Let_def)

text \<open>
  C4. A source that is an ITK text file with \<open>k > 1\<close> start tokens, \<open>k\<close> different from the
  number of input files, makes the arranger raise the count mismatch with both numbers;
  the file system is the one the sources before it left, so nothing was written for
  this source.
\<close>

theorem arrange_count_mismatch:
  assumes "guess_type E tf = Some ''text/plain''"
      and "fs1 tf = Some (Text raw)"
      and "prefix ''#Insight Transform File'' (strip raw)"
      and "count_sub ''#Transform'' (strip raw) = k"
      and "1 < k" and "int k \<noteq> num_files"
      and "arrange_loop E num_files tmp (enumerate 0 before) [] fs = (Inr xfms_T, fs1)"
  shows "arrange_xfms E (before @ tf # after) num_files tmp fs
           = (Inl (RuntimeError_count_mismatch k num_files), fs1)"
proof -
  have e: "enumerate 0 (before @ tf # after)
             = enumerate 0 before @ (length before, tf) # enumerate (Suc (length before)) after"
    by (simp add: enumerate_append_eq)
  have "arrange_loop E num_files tmp ((length before, tf) # enumerate (Suc (length before)) after) xfms_T fs1
          = (Inl (RuntimeError_count_mismatch k num_files), fs1)"
    using assms(1-6) by (intro arrange_loop_mismatch) auto
  then show ?thesis
    unfolding arrange_xfms_def e arrange_loop_append using assms(7) by simp
qed

theorem arrange_count_mismatch_witness:
  "arrange_xfms demo_env ([''A.mat''] @ ''F.txt'' # [''G.txt'']) 3 ''/tmp'' demo_fs
     = (Inl (RuntimeError_count_mismatch 2 3), demo_fs)"
proof -
  have wf: "well_formed demo_blocks"
    by (simp add: demo_blocks_def well_formed_def wf_block_def data_line_def)
  have ce: "clean_end (last_line demo_blocks)"
    by (simp add: demo_blocks_def clean_end_def last_line_def is_space_def)
  have 1: "guess_type demo_env ''F.txt'' = Some ''text/plain''"
    by (simp add: demo_env_def)
  have 2: "demo_fs ''F.txt'' = Some (Text (container_text demo_blocks))"
    by (simp add: demo_fs_def)
  have 3: "prefix ''#Insight Transform File'' (strip (container_text demo_blocks))"
    by (rule prefix_container [OF wf ce])
  have 4: "count_sub ''#Transform'' (strip (container_text demo_blocks)) = 2"
    using count_sub_container [OF wf ce] by (simp add: demo_blocks_def)
  have 5: "(1::nat) < 2" and 6: "int 2 \<noteq> 3" by simp_all
  have 7: "arrange_loop demo_env 3 ''/tmp'' (enumerate 0 [''A.mat'']) [] demo_fs
             = (Inr [replicate (nat 3) ''A.mat''], demo_fs)"
    by (simp add: demo_env_def)
  from arrange_count_mismatch [OF 1 2 3 4 5 6 7, of "[''G.txt'']"] show ?thesis .
qed

lemma split_loop_length:
  "split_loop out_base tfdata idxs split_xfms fs = (Inr r, fs')
     \<Longrightarrow> length r = length split_xfms + length idxs"
  by (induction idxs arbitrary: split_xfms fs) (auto simp: Let_def split: sum.splits)

lemma arrange_loop_rows:
  "arrange_loop E num_files tmp xs xfms_T fs = (Inr rows, fs')
     \<Longrightarrow> \<forall>r \<in> set xfms_T. length r = nat num_files
     \<Longrightarrow> length rows = length xfms_T + length xs \<and> (\<forall>r \<in> set rows. length r = nat num_files)"
proof (induction xs arbitrary: xfms_T fs)
  case Nil
  then show ?case by auto
next
  case (Cons p xs)
  obtain i tf where p: "p = (i, tf)" by (cases p)
  note step = Cons.prems(1) [unfolded p arrange_loop.simps]
  show ?case
  proof (cases "guess_type E tf \<noteq> Some ''text/plain''")
    case True
    with step have "arrange_loop E num_files tmp xs (xfms_T @ [replicate (nat num_files) tf]) fs = (Inr rows, fs')"
      by simp
    from Cons.IH [OF this] Cons.prems(2) show ?thesis by auto
  next
    case False
    with step obtain raw where raw: "read_text fs tf = Inr raw"
      by (auto split: sum.splits)
    let ?d = "strip raw"
    let ?k = "count_sub ''#Transform'' ?d"
    show ?thesis
    proof (cases "\<not> prefix ''#Insight Transform File'' ?d \<or> ?k = 1")
      case True
      with step False raw
      have "arrange_loop E num_files tmp xs (xfms_T @ [replicate (nat num_files) tf]) fs = (Inr rows, fs')"
        by (auto simp: Let_def split: if_splits)
      from Cons.IH [OF this] Cons.prems(2) show ?thesis by auto
    next
      case split: False
      with step False raw have k: "int ?k = num_files"
        by (auto simp: Let_def split: if_splits)
      from step False raw split k obtain names fs1 where
        s: "split_loop (out_base_name E tf i tmp) (itk_lines ?d) [0 ..< ?k] [] fs = (Inr names, fs1)"
        and r: "arrange_loop E num_files tmp xs (xfms_T @ [names]) fs1 = (Inr rows, fs')"
        by (auto simp: Let_def split: sum.splits prod.splits)
      from split_loop_length [OF s] k have "length names = nat num_files" by auto
      with Cons.IH [OF r] Cons.prems(2) show ?thesis by auto
    qed
  qed
qed

lemma arrange_shape_nonempty:
  assumes "arrange_xfms E chain num_files tmp fs = (Inr res, fs')"
      and "chain \<noteq> []"
  shows "length res = nat num_files \<and> (\<forall>a \<in> set res. length a = length chain)"
proof -
  from assms(1) obtain rows where
    l: "arrange_loop E num_files tmp (enumerate 0 chain) [] fs = (Inr rows, fs')"
    and res: "res = zip_star rows"
    by (auto simp: arrange_xfms_def split: sum.splits prod.splits)
  from arrange_loop_rows [OF l] have
    n: "length rows = length chain" and u: "\<forall>r \<in> set rows. length r = nat num_files"
    by auto
  from n assms(2) have "rows \<noteq> []" by auto
  from zip_star_uniform [OF this u] show ?thesis
    by (auto simp: res n)
qed

text \<open>
  C6. The specification promises one assignment per volume also when the chain is
  empty. With no source the arranger returns the empty list, whatever the number of
  volumes: no assignment instead of \<open>N\<close> empty ones. (For a chain with at least one
  source the shape is the promised one: \<open>arrange_shape_nonempty\<close>.)
\<close>

theorem arrange_empty_chain: "arrange_xfms E [] num_files tmp fs = (Inr [], fs)"
  using arrange_loop_Nil [of E num_files tmp fs] by (simp add: arrange_xfms_def zip_star_def)

subsection \<open>Splitting a container\<close>

lemma split_loop_writes:
  "\<forall>i \<in> set idxs. xform_text tfdata i = Inr (f i) \<Longrightarrow>
     split_loop out_base tfdata idxs split_xfms fs
       = (Inr (split_xfms @ map out_base idxs), write_all (map (\<lambda>i. (out_base i, f i)) idxs) fs)"
proof (induction idxs arbitrary: split_xfms fs)
  case Nil
  show ?case by simp
next
  case (Cons i idxs)
  from Cons.prems have t: "xform_text tfdata i = Inr (f i)"
    and rest: "\<forall>i \<in> set idxs. xform_text tfdata i = Inr (f i)" by simp_all
  from Cons.IH [OF rest] show ?case by (simp add: t Let_def fun_upd_def)
qed

lemma split_loop_container:
  assumes "well_formed bs" "clean_end (last_line bs)"
  shows "split_loop out_base (itk_lines (strip (container_text bs))) [0 ..< length bs] [] fs
           = (Inr (map out_base [0 ..< length bs]), write_all (split_files out_base bs) fs)"
proof -
  have "\<forall>i \<in> set [0 ..< length bs].
          xform_text (itk_lines (strip (container_text bs))) i = Inr (standalone_text (bs ! i))"
    using xform_text_container [OF assms] by simp
  from split_loop_writes [OF this, of out_base "[]" fs] show ?thesis
    by (simp add: split_files_def)
qed

lemma arrange_loop_split:
  assumes "guess_type E tf = Some ''text/plain''"
      and "fs tf = Some (Text (container_text bs))"
      and "well_formed bs" and "clean_end (last_line bs)"
      and "length bs \<noteq> 1" and "num_files = int (length bs)"
  shows "arrange_loop E num_files tmp ((i, tf) # rest) xfms_T fs
           = arrange_loop E num_files tmp rest
               (xfms_T @ [map (out_base_name E tf i tmp) [0 ..< length bs] ])
               (write_all (split_files (out_base_name E tf i tmp) bs) fs)"
  using assms(1,2,5,6) prefix_container [OF assms(3,4)] count_sub_container [OF assms(3,4)]
    split_loop_container [OF assms(3,4), of "out_base_name E tf i tmp" fs]
  by (simp add: read_text_def Let_def)

lemma standalone_reread:
  assumes "wf_block b" "clean_end (snd (snd b))"
  shows "count_sub ''#Transform'' (strip (standalone_text b)) = 1"
    and "index_of ''#Transform 0'' (itk_lines (strip (standalone_text b))) = Some 0"
    and "block_data (itk_lines (strip (standalone_text b))) 0 = (case b of (t, ps, fps) \<Rightarrow> [t, ps, fps])"
proof -
  from assms have s: "well_formed [b]" and c: "clean_end (last_line [b])"
    by (simp_all add: well_formed_def last_line_def)
  have wf1: "list_all wf_block [b]" using s by (simp add: well_formed_def)
  show "count_sub ''#Transform'' (strip (standalone_text b)) = 1"
    using count_sub_container [OF s c] by (simp add: container_text_single)
  show "index_of ''#Transform 0'' (itk_lines (strip (standalone_text b))) = Some 0"
    using index_of_block(1) [OF wf1, of 0] itk_lines_container [OF s c]
    by (simp add: start_token_0 container_text_single)
  show "block_data (itk_lines (strip (standalone_text b))) 0 = (case b of (t, ps, fps) \<Rightarrow> [t, ps, fps])"
    using index_of_block(2) [OF wf1, of 0] itk_lines_container [OF s c]
    by (simp add: container_text_single)
qed

text \<open>
  C5. Verbatim copies of the three data lines are not what every well-formed container
  gets. The text is stripped before it is cut into lines, so whitespace at the end of
  the container's last line is lost: of the two blocks below, the second ends in
  \<open>FixedParameters: 7\<close> and a space, and the file written for it ends in
  \<open>FixedParameters: 7\<close> and the empty line.
\<close>

theorem trailing_whitespace_not_copied:
  "well_formed spaced_blocks
   \<and> spaced_blocks ! 1 = (''Transform: B'', ''Parameters: 0 1 2'', ''FixedParameters: 7 '')
   \<and> fst (arrange_xfms demo_env [''F.txt''] 2 ''/tmp'' spaced_fs)
       = Inr [ [''/tmp/F.txt_pos-000_xfm-00000''], [''/tmp/F.txt_pos-000_xfm-00001''] ]
   \<and> snd (arrange_xfms demo_env [''F.txt''] 2 ''/tmp'' spaced_fs) ''/tmp/F.txt_pos-000_xfm-00001''
       = Some (Text (join newline [''#Insight Transform File V1.0'', ''#Transform 0'',
                                   ''Transform: B'', ''Parameters: 0 1 2'', ''FixedParameters: 7'', [] ]))
   \<and> snd (arrange_xfms demo_env [''F.txt''] 2 ''/tmp'' spaced_fs) ''/tmp/F.txt_pos-000_xfm-00001''
       \<noteq> Some (Text (standalone_text (spaced_blocks ! 1)))"
  by code_simp

text \<open>
  C5, for a well-formed container whose last line is not empty and does not end in
  whitespace. When the arranger comes to such a container of \<open>k \<noteq> 1\<close> blocks in a chain
  for \<open>k\<close> volumes, it writes \<open>k\<close> files, one after the other and nothing else: for block
  \<open>i\<close> the format-version line, the line \<open>#Transform 0\<close> whatever \<open>i\<close> is, the three data
  lines of block \<open>i\<close> as they are, and an empty last line, under the name made for \<open>i\<close>;
  these names are the row of the source, and the arranger goes on with the sources after
  it. The text written for block \<open>i\<close> is the container of the single block \<open>i\<close>; if the
  last line of block \<open>i\<close> is not empty and does not end in whitespace, reading that text
  again in the same way finds one start token, first, and the same three lines after it.
\<close>

theorem split_artifacts:
  assumes "guess_type E tf = Some ''text/plain''"
      and "fs1 tf = Some (Text (container_text bs))"
      and "well_formed bs" and "clean_end (last_line bs)"
      and "length bs \<noteq> 1" and "num_files = int (length bs)"
      and "arrange_loop E num_files tmp (enumerate 0 before) [] fs = (Inr xfms_T, fs1)"
  shows "arrange_xfms E (before @ tf # after) num_files tmp fs
           = (case arrange_loop E num_files tmp (enumerate (Suc (length before)) after)
                     (xfms_T @ [map (out_base_name E tf (length before) tmp) [0 ..< length bs] ])
                     (write_all (split_files (out_base_name E tf (length before) tmp) bs) fs1) of
                (Inl e, fs') \<Rightarrow> (Inl e, fs')
              | (Inr rows, fs') \<Rightarrow> (Inr (zip_star rows), fs'))
       \<and> (\<forall>i < length bs.
             standalone_text (bs ! i) = container_text [bs ! i]
           \<and> (clean_end (snd (snd (bs ! i))) \<longrightarrow>
                 count_sub ''#Transform'' (strip (standalone_text (bs ! i))) = 1
               \<and> index_of ''#Transform 0'' (itk_lines (strip (standalone_text (bs ! i)))) = Some 0
               \<and> block_data (itk_lines (strip (standalone_text (bs ! i)))) 0
                   = (case bs ! i of (t, ps, fps) \<Rightarrow> [t, ps, fps])))"
proof (intro conjI allI impI)
  have e: "enumerate 0 (before @ tf # after)
             = enumerate 0 before @ (length before, tf) # enumerate (Suc (length before)) after"
    by (simp add: enumerate_append_eq)
  show "arrange_xfms E (before @ tf # after) num_files tmp fs
           = (case arrange_loop E num_files tmp (enumerate (Suc (length before)) after)
                     (xfms_T @ [map (out_base_name E tf (length before) tmp) [0 ..< length bs] ])
                     (write_all (split_files (out_base_name E tf (length before) tmp) bs) fs1) of
                (Inl e, fs') \<Rightarrow> (Inl e, fs')
              | (Inr rows, fs') \<Rightarrow> (Inr (zip_star rows), fs'))"
    unfolding arrange_xfms_def e arrange_loop_append
    by (simp only: assms(7) prod.case sum.case
          arrange_loop_split [where fs = fs1 and tf = tf and bs = bs, OF assms(1-6)])
next
  fix i
  show "standalone_text (bs ! i) = container_text [bs ! i]"
    by (simp only: container_text_single)
next
  fix i assume i: "i < length bs" and c: "clean_end (snd (snd (bs ! i)))"
  from assms(3) i have w: "wf_block (bs ! i)" by (simp add: well_formed_def list_all_length)
  from standalone_reread [OF w c]
  show "count_sub ''#Transform'' (strip (standalone_text (bs ! i))) = 1"
    and "index_of ''#Transform 0'' (itk_lines (strip (standalone_text (bs ! i)))) = Some 0"
    and "block_data (itk_lines (strip (standalone_text (bs ! i)))) 0
           = (case bs ! i of (t, ps, fps) \<Rightarrow> [t, ps, fps])"
    by simp_all
qed

text \<open>
  A chain of an affine file, the container of two blocks and a text that is no
  transform, for two volumes: volume \<open>i\<close> gets the affine file, the file split off for
  block \<open>i\<close> and the text; the two split files are the only ones written.
\<close>

theorem split_artifacts_witness:
  "guess_type demo_env ''F.txt'' = Some ''text/plain''
   \<and> demo_fs ''F.txt'' = Some (Text (container_text demo_blocks))
   \<and> well_formed demo_blocks \<and> clean_end (last_line demo_blocks) \<and> length demo_blocks \<noteq> 1
   \<and> arrange_xfms demo_env ([''A.mat''] @ ''F.txt'' # [''G.txt'']) 2 ''/tmp'' demo_fs
       = (Inr [ [''A.mat'', ''/tmp/F.txt_pos-001_xfm-00000'', ''G.txt''],
                [''A.mat'', ''/tmp/F.txt_pos-001_xfm-00001'', ''G.txt''] ],
          demo_fs
            (''/tmp/F.txt_pos-001_xfm-00000'' \<mapsto> Text (join newline
                [''#Insight Transform File V1.0'', ''#Transform 0'',
                 ''Transform: A'', ''Parameters: 1 0 0'', ''FixedParameters: 0'', [] ]),
             ''/tmp/F.txt_pos-001_xfm-00001'' \<mapsto> Text (join newline
                [''#Insight Transform File V1.0'', ''#Transform 0'',
                 ''Transform: B'', ''Parameters: 0 1 2'', ''FixedParameters: 7'', [] ])))
   \<and> block_data (itk_lines (strip (standalone_text (demo_blocks ! 1)))) 0
       = [''Transform: B'', ''Parameters: 0 1 2'', ''FixedParameters: 7'']"
proof -
  have wf: "well_formed demo_blocks"
    by (simp add: demo_blocks_def well_formed_def wf_block_def data_line_def)
  have ce: "clean_end (last_line demo_blocks)"
    by (simp add: demo_blocks_def clean_end_def last_line_def is_space_def)
  have 1: "guess_type demo_env ''F.txt'' = Some ''text/plain''"
    by (simp add: demo_env_def)
  have 2: "demo_fs ''F.txt'' = Some (Text (container_text demo_blocks))"
    by (simp add: demo_fs_def)
  have 5: "length demo_blocks \<noteq> 1" and 6: "(2::int) = int (length demo_blocks)"
    by (simp_all add: demo_blocks_def)
  have 7: "arrange_loop demo_env 2 ''/tmp'' (enumerate 0 [''A.mat'']) [] demo_fs
             = (Inr [replicate (nat 2) ''A.mat''], demo_fs)"
    by (simp add: demo_env_def)
  have i: "1 < length demo_blocks" by (simp add: demo_blocks_def)
  have c1: "clean_end (snd (snd (demo_blocks ! 1)))"
    by (simp add: demo_blocks_def clean_end_def is_space_def)
  have n0: "out_base_name demo_env ''F.txt'' (Suc 0) ''/tmp'' 0 = ''/tmp/F.txt_pos-001_xfm-00000''"
    by code_simp
  have n1: "out_base_name demo_env ''F.txt'' (Suc 0) ''/tmp'' (Suc 0) = ''/tmp/F.txt_pos-001_xfm-00001''"
    by code_simp
  have g: "arrange_loop demo_env 2 ''/tmp'' (enumerate (Suc (length [''A.mat''])) [''G.txt'']) rows fs
             = (Inr (rows @ [replicate (nat 2) ''G.txt'']), fs)"
    if "fs ''G.txt'' = Some (Text ''no transform'')" for rows fs
    using that by (simp add: demo_env_def read_text_def strip_def is_space_def Let_def)
  note t = split_artifacts [OF 1 2 wf ce 5 6 7, of "[''G.txt'']"]
  note r = t [THEN conjunct2, rule_format, OF i, THEN conjunct2, rule_format, OF c1]
  have "(case demo_blocks ! 1 of (t, ps, fps) \<Rightarrow> [t, ps, fps])
          = [''Transform: B'', ''Parameters: 0 1 2'', ''FixedParameters: 7'']"
    by (simp add: demo_blocks_def)
  with r have b: "block_data (itk_lines (strip (standalone_text (demo_blocks ! 1)))) 0
       = [''Transform: B'', ''Parameters: 0 1 2'', ''FixedParameters: 7'']"
    by (simp only:)
  define out_fs where "out_fs = demo_fs
            (''/tmp/F.txt_pos-001_xfm-00000'' \<mapsto> Text (join newline
                [''#Insight Transform File V1.0'', ''#Transform 0'',
                 ''Transform: A'', ''Parameters: 1 0 0'', ''FixedParameters: 0'', [] ]),
             ''/tmp/F.txt_pos-001_xfm-00001'' \<mapsto> Text (join newline
                [''#Insight Transform File V1.0'', ''#Transform 0'',
                 ''Transform: B'', ''Parameters: 0 1 2'', ''FixedParameters: 7'', [] ]))"
  have w: "write_all (split_files (out_base_name demo_env ''F.txt'' (length [''A.mat'']) ''/tmp'') demo_blocks) demo_fs
         = out_fs"
    by (simp add: out_fs_def split_files_def demo_blocks_def standalone_text_def n0 n1 upt_rec)
  have gt: "out_fs ''G.txt'' = Some (Text ''no transform'')"
    by (simp add: out_fs_def demo_fs_def)
  note g' = g [where fs = out_fs, OF gt]
  have z: "zip_star [replicate (nat 2) ''A.mat'',
                     map (out_base_name demo_env ''F.txt'' (length [''A.mat'']) ''/tmp'') [0 ..< length demo_blocks],
                     replicate (nat 2) ''G.txt'']
         = [ [''A.mat'', ''/tmp/F.txt_pos-001_xfm-00000'', ''G.txt''],
             [''A.mat'', ''/tmp/F.txt_pos-001_xfm-00001'', ''G.txt''] ]"
    by (simp add: zip_star_def demo_blocks_def n0 n1 upt_rec numeral_2_eq_2)
  from t [THEN conjunct1] have "arrange_xfms demo_env ([''A.mat''] @ ''F.txt'' # [''G.txt'']) 2 ''/tmp'' demo_fs
       = (Inr [ [''A.mat'', ''/tmp/F.txt_pos-001_xfm-00000'', ''G.txt''],
                [''A.mat'', ''/tmp/F.txt_pos-001_xfm-00001'', ''G.txt''] ], out_fs)"
    by (simp only: w g' prod.case sum.case z append_Cons append_Nil)
  then have "arrange_xfms demo_env ([''A.mat''] @ ''F.txt'' # [''G.txt'']) 2 ''/tmp'' demo_fs
       = (Inr [ [''A.mat'', ''/tmp/F.txt_pos-001_xfm-00000'', ''G.txt''],
                [''A.mat'', ''/tmp/F.txt_pos-001_xfm-00001'', ''G.txt''] ],
          demo_fs
            (''/tmp/F.txt_pos-001_xfm-00000'' \<mapsto> Text (join newline
                [''#Insight Transform File V1.0'', ''#Transform 0'',
                 ''Transform: A'', ''Parameters: 1 0 0'', ''FixedParameters: 0'', [] ]),
             ''/tmp/F.txt_pos-001_xfm-00001'' \<mapsto> Text (join newline
                [''#Insight Transform File V1.0'', ''#Transform 0'',
                 ''Transform: B'', ''Parameters: 0 1 2'', ''FixedParameters: 7'', [] ])))"
    by (simp only: out_fs_def)
  with 1 2 wf ce 5 b show ?thesis by (simp only: simp_thms)
qed

subsection \<open>The rotation matrix\<close>

text \<open>
  The text handed to the parser is \<open>str\<close> of a bytes object, so it always holds the
  letter b and two quotes: the test for an empty text never succeeds.
\<close>

lemma no_transform_info_unreachable:
  "rotation_matrix_of_output py_float out \<noteq> Inl ValueError_no_transform_info"
  by (auto simp add: rotation_matrix_of_output_def str_of_bytes_def Let_def float_rows_def
           split: option.splits)

text \<open>
  For the same reason the first line starts with the letter b and a quote: an output
  that is just the marker and three rows is rejected, while a marker further down is
  found and the three lines after it are read.
\<close>

lemma rotation_bare_example:
  "rotation_matrix_of_output py_float ''Matrix:\<newline>1 0 0\<newline>0 1 0\<newline>0 0 1''
     = Inl ValueError_unable_to_read"
  by (simp add: rotation_matrix_of_output_def str_of_bytes_def repr_quote_def repr_byte_def
        py_split_def start_lines_def strip_def is_space_def)

lemma rotation_embedded_example:
  "rotation_matrix_of_output demo_float
     ''Transform:\<newline>Matrix:\<newline>  1 0 0\<newline>  0 1 0\<newline>  0 0 1\<newline>Offset:''
     = Inr [ [1, 0, 0], [0, 1, 0], [0, 0, 1] ]"
  by (simp add: rotation_matrix_of_output_def str_of_bytes_def repr_quote_def repr_byte_def
        py_split_def start_lines_def strip_def is_space_def float_rows_def py_words_def
        demo_float_def)

text \<open>
  C7. When the inspection tool prints nothing, the specification promises the no-output
  error. The function raises the matrix-not-found error instead.
\<close>

theorem rotation_of_empty_output:
  "rotation_matrix_from_transform silent_tool py_float transform fs = Inl ValueError_unable_to_read"
  by (simp add: rotation_matrix_from_transform_def silent_tool_def rotation_matrix_of_output_def
        str_of_bytes_def repr_quote_def py_split_def start_lines_def strip_def is_space_def)


subsection \<open>The per-volume worker\<close>

lemma pct_0d_5_0: "pct_0d 5 0 = ''00000''" by code_simp
lemma pct_0d_5_1: "pct_0d 5 (Suc 0) = ''00001''" by code_simp

lemma pools_of_append: "pools_of (xs @ ys) = pools_of xs @ pools_of ys"
  by (induction xs rule: pools_of.induct) simp_all

lemma jobs_of_append: "jobs_of (xs @ ys) = jobs_of xs @ jobs_of ys"
  by (induction xs rule: jobs_of.induct) simp_all

lemma applytfms_facts:
  assumes "applytfms T (in_file, in_xform, index, newpath) st = (r, st')"
  shows "ifargs st' = (ifargs st)(''copy_dtype'' := None)"
    and "dirs st' = dirs st"
    and "\<exists>tr. events st' = events st @ tr \<and> pools_of tr = [] \<and> jobs_of tr = [index]"
    and "\<And>x. r = Inr x \<Longrightarrow> x = expected T ((ifargs st)(''copy_dtype'' := None)) (in_file, in_xform, index, newpath)"
  using assms
  by (auto simp: applytfms_def Let_def expected_def split: sum.splits prod.splits if_splits)

lemma applytfms_job:
  assumes "applytfms T j st = (r, st')"
  shows "(ifargs st')(''copy_dtype'' := None) = (ifargs st)(''copy_dtype'' := None)"
    and "dirs st' = dirs st"
    and "\<exists>tr. events st' = events st @ tr \<and> pools_of tr = [] \<and> jobs_of tr = [job_index j]"
    and "\<And>x. r = Inr x \<Longrightarrow> x = expected T ((ifargs st)(''copy_dtype'' := None)) j"
proof -
  obtain in_file in_xform index newpath where j: "j = (in_file, in_xform, index, newpath)"
    by (cases j)
  note f = applytfms_facts [OF assms [unfolded j] ]
  show "(ifargs st')(''copy_dtype'' := None) = (ifargs st)(''copy_dtype'' := None)"
    by (simp add: f(1))
  show "dirs st' = dirs st" by (rule f(2))
  show "\<exists>tr. events st' = events st @ tr \<and> pools_of tr = [] \<and> jobs_of tr = [job_index j]"
    using f(3) by (simp add: j job_index_def)
  show "\<And>x. r = Inr x \<Longrightarrow> x = expected T ((ifargs st)(''copy_dtype'' := None)) j"
    unfolding j by (rule f(4))
qed

lemma run_jobs_state:
  "run_jobs T js st = (r, st') \<Longrightarrow>
     (ifargs st')(''copy_dtype'' := None) = (ifargs st)(''copy_dtype'' := None)
     \<and> dirs st' = dirs st"
proof (induction js arbitrary: st r st')
  case Nil
  then show ?case by simp
next
  case (Cons j js)
  obtain r1 st1 where a: "applytfms T j st = (r1, st1)" by (cases "applytfms T j st")
  note f = applytfms_job(1,2) [OF a]
  show ?case
  proof (cases r1)
    case (Inl e)
    with Cons.prems a have "st' = st1" by simp
    with f show ?thesis by simp
  next
    case (Inr x)
    obtain r2 st2 where b: "run_jobs T js st1 = (r2, st2)" by (cases "run_jobs T js st1")
    with Cons.prems a Inr have "st' = st2" by (auto split: sum.splits)
    with Cons.IH [OF b] f show ?thesis by simp
  qed
qed

lemma run_jobs_results:
  "run_jobs T js st = (Inr rs, st') \<Longrightarrow> (ifargs st)(''copy_dtype'' := None) = base \<Longrightarrow>
     rs = map (expected T base) js"
proof (induction js arbitrary: st rs st')
  case Nil
  then show ?case by simp
next
  case (Cons j js)
  obtain r1 st1 where a: "applytfms T j st = (r1, st1)" by (cases "applytfms T j st")
  with Cons.prems(1) obtain x where r1: "r1 = Inr x" by (cases r1) auto
  obtain r2 st2 where b: "run_jobs T js st1 = (r2, st2)" by (cases "run_jobs T js st1")
  with Cons.prems(1) a r1 obtain xs where r2: "r2 = Inr xs" and rs: "rs = x # xs"
    by (cases r2) auto
  from applytfms_job(4) [OF a r1] Cons.prems(2) have x: "x = expected T base j" by (simp only:)
  from applytfms_job(1) [OF a] Cons.prems(2) have "(ifargs st1)(''copy_dtype'' := None) = base"
    by (simp only:)
  from Cons.IH [OF b [unfolded r2] this] have "xs = map (expected T base) js" .
  with x rs show ?case by (simp only: list.map)
qed

text \<open>
  The trace of the sequential branch: no pool, and the jobs of an initial stretch of the
  list, in the list's order: all of them when the branch succeeds, at least the failing
  one when it fails.
\<close>

lemma run_jobs_trace:
  "run_jobs T js st = (r, st') \<Longrightarrow>
     \<exists>tr k. events st' = events st @ tr \<and> pools_of tr = [] \<and> k \<le> length js
        \<and> jobs_of tr = map job_index (take k js)
        \<and> ((\<exists>rs. r = Inr rs) \<longrightarrow> k = length js)
        \<and> ((\<exists>e. r = Inl e) \<longrightarrow> 0 < k)"
proof (induction js arbitrary: st r st')
  case Nil
  then have "events st' = events st @ [] \<and> pools_of [] = [] \<and> (0::nat) \<le> length ([] :: job list)
        \<and> jobs_of [] = map job_index (take 0 [])
        \<and> ((\<exists>rs. r = Inr rs) \<longrightarrow> 0 = length ([] :: job list))
        \<and> ((\<exists>e. r = Inl e) \<longrightarrow> (0::nat) < 0)" by auto
  then show ?case by blast
next
  case (Cons j js)
  obtain r1 st1 where a: "applytfms T j st = (r1, st1)" by (cases "applytfms T j st")
  from applytfms_job(3) [OF a] obtain tr1 where
    t1: "events st1 = events st @ tr1" "pools_of tr1 = []" "jobs_of tr1 = [job_index j]" by blast
  show ?case
  proof (cases r1)
    case (Inl e)
    with Cons.prems a have "st' = st1" "r = Inl e" by simp_all
    with t1 have "events st' = events st @ tr1 \<and> pools_of tr1 = [] \<and> 1 \<le> length (j # js)
        \<and> jobs_of tr1 = map job_index (take 1 (j # js))
        \<and> ((\<exists>rs. r = Inr rs) \<longrightarrow> 1 = length (j # js))
        \<and> ((\<exists>e. r = Inl e) \<longrightarrow> (0::nat) < 1)" by simp
    then show ?thesis by blast
  next
    case (Inr x)
    obtain r2 st2 where b: "run_jobs T js st1 = (r2, st2)" by (cases "run_jobs T js st1")
    with Cons.prems a Inr have st: "st' = st2" and r: "(\<exists>rs. r = Inr rs) = (\<exists>rs. r2 = Inr rs)"
      by (auto split: sum.splits)
    from Cons.IH [OF b] obtain tr2 k where k:
      "events st2 = events st1 @ tr2" "pools_of tr2 = []" "k \<le> length js"
      "jobs_of tr2 = map job_index (take k js)"
      "(\<exists>rs. r2 = Inr rs) \<longrightarrow> k = length js" by blast
    from k t1 st r have "events st' = events st @ (tr1 @ tr2) \<and> pools_of (tr1 @ tr2) = []
        \<and> Suc k \<le> length (j # js)
        \<and> jobs_of (tr1 @ tr2) = map job_index (take (Suc k) (j # js))
        \<and> ((\<exists>rs. r = Inr rs) \<longrightarrow> Suc k = length (j # js))
        \<and> ((\<exists>e. r = Inl e) \<longrightarrow> 0 < Suc k)"
      by (simp add: pools_of_append jobs_of_append)
    then show ?thesis by blast
  qed
qed

text \<open>
  Whatever the option bag holds: when the output the external call wrote and the input
  have the same data type, the worker leaves the files as the external call left them.
\<close>

lemma no_rewrite_when_dtypes_agree:
  assumes "apply_transforms T in_file in_xform (out_file_name T in_file index newpath)
             ((ifargs st)(''copy_dtype'' := None)) (files st) = Inr fs'"
      and "fs' (out_file_name T in_file index newpath) = Some (Image dt arr)"
      and "fs' in_file = Some (Image dt in_arr)"
  shows "files (snd (applytfms T (in_file, in_xform, index, newpath) st)) = fs'"
    and "events (snd (applytfms T (in_file, in_xform, index, newpath) st)) = events st @ [Job index]"
  using assms by (auto simp: applytfms_def load_image_def Let_def)

text \<open>
  An output is stored again only by a worker that finds \<open>copy_dtype\<close> set and meets two
  different data types; any other worker that returns leaves the files as the external
  call left them.
\<close>

lemma rewrite_only_on_flag_and_mismatch:
  assumes "applytfms T (in_file, in_xform, index, newpath) st = (Inr x, st')"
  shows "(\<exists>fs'. apply_transforms T in_file in_xform (out_file_name T in_file index newpath)
               ((ifargs st)(''copy_dtype'' := None)) (files st) = Inr fs'
            \<and> files st' = fs' \<and> events st' = events st @ [Job index])
       \<or> (\<exists>v fs' out_dtype arr in_dtype in_arr.
             ifargs st ''copy_dtype'' = Some v \<and> truthy v
           \<and> apply_transforms T in_file in_xform (out_file_name T in_file index newpath)
               ((ifargs st)(''copy_dtype'' := None)) (files st) = Inr fs'
           \<and> fs' (out_file_name T in_file index newpath) = Some (Image out_dtype arr)
           \<and> fs' in_file = Some (Image in_dtype in_arr) \<and> in_dtype \<noteq> out_dtype)"
  using assms
  by (auto simp: applytfms_def load_image_def Let_def
           split: sum.splits option.splits content.splits if_splits)

text \<open>
  A worker that finds \<open>copy_dtype\<close> set stores the output again, with the input's data
  type, exactly when the two data types differ.
\<close>

lemma copy_dtype_rewrite:
  assumes "ifargs st ''copy_dtype'' = Some v" and "truthy v"
      and "apply_transforms T in_file in_xform (out_file_name T in_file index newpath)
             ((ifargs st)(''copy_dtype'' := None)) (files st) = Inr fs'"
      and "fs' (out_file_name T in_file index newpath) = Some (Image out_dtype arr)"
      and "fs' in_file = Some (Image in_dtype in_arr)"
      and "applytfms T (in_file, in_xform, index, newpath) st = (r, st')"
  shows "(in_dtype = out_dtype \<longrightarrow> files st' = fs' \<and> events st' = events st @ [Job index])
       \<and> (in_dtype \<noteq> out_dtype \<longrightarrow>
            files st' = fs'(out_file_name T in_file index newpath
                              \<mapsto> Image in_dtype (recast T out_dtype in_dtype arr))
          \<and> events st' = events st @ [Job index, ToFilename (out_file_name T in_file index newpath)])
       \<and> (\<exists>cmdline. r = Inr (out_file_name T in_file index newpath, cmdline))"
  using assms by (auto simp: applytfms_def load_image_def Let_def split: if_splits)


subsection \<open>The two branches of the executor\<close>

lemma poll_results:
  "poll futures idxs = Some (Inr rs) \<Longrightarrow> \<forall>i x. futures i = Some (Inr x) \<longrightarrow> x = f i \<Longrightarrow> rs = map f idxs"
  by (induction idxs arbitrary: rs) (auto split: option.splits sum.splits)

lemma poll_error:
  "poll futures idxs = Some (Inl e) \<Longrightarrow> \<exists>i \<in> set idxs. futures i = Some (Inl e)"
  by (induction idxs) (auto split: option.splits sum.splits)

lemma poll_done: "set idxs \<subseteq> dom futures \<Longrightarrow> poll futures idxs \<noteq> None"
  by (induction idxs) (auto split: option.splits sum.splits)

lemma poll_empty: "dom futures = {} \<Longrightarrow> idxs \<noteq> [] \<Longrightarrow> poll futures idxs = None"
  by (cases idxs) (auto split: option.splits)

lemma complete_schedule_set: "set (complete_schedule n sched) = {0 ..< n}"
  by (auto simp: complete_schedule_def Let_def)

lemma complete_schedule_distinct: "distinct (complete_schedule n sched)"
  by (auto simp: complete_schedule_def Let_def)

lemma complete_schedule_length: "length (complete_schedule n sched) = n"
proof -
  have "length (complete_schedule n sched) = card (set (complete_schedule n sched))"
    by (rule distinct_card [symmetric]) (rule complete_schedule_distinct)
  then show ?thesis by (simp add: complete_schedule_set)
qed

text \<open>Every permutation of the job numbers is a schedule.\<close>

lemma complete_schedule_permutation:
  assumes "distinct p" "set p = {0 ..< n}"
  shows "complete_schedule n p = p"
proof -
  from assms(2) have "filter (\<lambda>i. i < n) p = p" by (auto simp: filter_id_conv)
  moreover from assms(1) have "remdups p = p" by (rule distinct_remdups_id)
  moreover from assms(2) have "filter (\<lambda>i. i \<notin> set p) [0 ..< n] = []" by (auto simp: filter_empty_conv)
  ultimately show ?thesis by (simp add: complete_schedule_def)
qed

lemma run_scheduled_state:
  "run_scheduled T jobs extra order futures st = (futures', st') \<Longrightarrow>
     (ifargs st')(''copy_dtype'' := None) = (ifargs st)(''copy_dtype'' := None)
     \<and> dirs st' = dirs st"
proof (induction order arbitrary: extra futures st)
  case Nil
  then show ?case by simp
next
  case (Cons i rest)
  show ?case
  proof (cases "failure_seen (length jobs) futures \<and> extra = 0")
    case True
    with Cons.prems show ?thesis by simp
  next
    case False
    obtain r st1 where a: "applytfms T (jobs ! i) st = (r, st1)"
      by (cases "applytfms T (jobs ! i) st")
    with Cons.prems False
    have "run_scheduled T jobs (if failure_seen (length jobs) futures then extra - 1 else extra)
            rest (futures(i \<mapsto> r)) st1 = (futures', st')"
      by (simp split: if_splits)
    from Cons.IH [OF this] applytfms_job(1,2) [OF a] show ?thesis by simp
  qed
qed

lemma run_scheduled_results:
  "run_scheduled T jobs extra order futures st = (futures', st') \<Longrightarrow>
   (ifargs st)(''copy_dtype'' := None) = base \<Longrightarrow>
   \<forall>i x. futures i = Some (Inr x) \<longrightarrow> x = expected T base (jobs ! i) \<Longrightarrow>
   \<forall>i x. futures' i = Some (Inr x) \<longrightarrow> x = expected T base (jobs ! i)"
proof (induction order arbitrary: extra futures st)
  case Nil
  then show ?case by simp
next
  case (Cons i rest)
  show ?case
  proof (cases "failure_seen (length jobs) futures \<and> extra = 0")
    case True
    with Cons.prems(1) have "futures' = futures" by simp
    with Cons.prems(3) show ?thesis by simp
  next
    case False
    obtain r st1 where a: "applytfms T (jobs ! i) st = (r, st1)"
      by (cases "applytfms T (jobs ! i) st")
    with Cons.prems(1) False
    have s: "run_scheduled T jobs (if failure_seen (length jobs) futures then extra - 1 else extra)
            rest (futures(i \<mapsto> r)) st1 = (futures', st')"
      by (simp split: if_splits)
    from applytfms_job(1) [OF a] Cons.prems(2) have b: "(ifargs st1)(''copy_dtype'' := None) = base"
      by (simp only:)
    have "\<forall>k x. (futures(i \<mapsto> r)) k = Some (Inr x) \<longrightarrow> x = expected T base (jobs ! k)"
    proof (intro allI impI)
      fix k x assume h: "(futures(i \<mapsto> r)) k = Some (Inr x)"
      show "x = expected T base (jobs ! k)"
      proof (cases "k = i")
        case True
        with h have "r = Inr x" by simp
        from applytfms_job(4) [OF a this] Cons.prems(2) True show ?thesis by (simp only:)
      next
        case False
        with h have "futures k = Some (Inr x)" by simp
        with Cons.prems(3) show ?thesis by blast
      qed
    qed
    from Cons.IH [OF s b this] show ?thesis .
  qed
qed

text \<open>
  The trace of a pool: the jobs of an initial stretch of the schedule, in the
  schedule's order; their futures are the ones that are done; the stretch is the whole
  schedule unless the iteration over the results has met an exception.
\<close>

lemma run_scheduled_trace:
  "run_scheduled T jobs extra order futures st = (futures', st') \<Longrightarrow>
     \<exists>tr k. events st' = events st @ tr \<and> pools_of tr = [] \<and> k \<le> length order
        \<and> jobs_of tr = map (\<lambda>i. job_index (jobs ! i)) (take k order)
        \<and> dom futures' = dom futures \<union> set (take k order)
        \<and> (k = length order \<or> failure_seen (length jobs) futures')"
proof (induction order arbitrary: extra futures st)
  case Nil
  then have "events st' = events st @ [] \<and> pools_of [] = [] \<and> (0::nat) \<le> length ([] :: nat list)
        \<and> jobs_of [] = map (\<lambda>i. job_index (jobs ! i)) (take 0 [])
        \<and> dom futures' = dom futures \<union> set (take 0 ([] :: nat list))
        \<and> ((0::nat) = length ([] :: nat list) \<or> failure_seen (length jobs) futures')" by simp
  then show ?case by blast
next
  case (Cons i rest)
  show ?case
  proof (cases "failure_seen (length jobs) futures \<and> extra = 0")
    case True
    with Cons.prems have "futures' = futures" "st' = st" by simp_all
    with True have "events st' = events st @ [] \<and> pools_of [] = [] \<and> 0 \<le> length (i # rest)
        \<and> jobs_of [] = map (\<lambda>i. job_index (jobs ! i)) (take 0 (i # rest))
        \<and> dom futures' = dom futures \<union> set (take 0 (i # rest))
        \<and> (0 = length (i # rest) \<or> failure_seen (length jobs) futures')" by simp
    then show ?thesis by blast
  next
    case False
    obtain r st1 where a: "applytfms T (jobs ! i) st = (r, st1)"
      by (cases "applytfms T (jobs ! i) st")
    with Cons.prems False
    have s: "run_scheduled T jobs (if failure_seen (length jobs) futures then extra - 1 else extra)
            rest (futures(i \<mapsto> r)) st1 = (futures', st')"
      by (simp split: if_splits)
    from applytfms_job(3) [OF a] obtain tr1 where
      t1: "events st1 = events st @ tr1" "pools_of tr1 = []" "jobs_of tr1 = [job_index (jobs ! i)]"
      by blast
    from Cons.IH [OF s] obtain tr2 k where k:
      "events st' = events st1 @ tr2" "pools_of tr2 = []" "k \<le> length rest"
      "jobs_of tr2 = map (\<lambda>i. job_index (jobs ! i)) (take k rest)"
      "dom futures' = dom (futures(i \<mapsto> r)) \<union> set (take k rest)"
      "k = length rest \<or> failure_seen (length jobs) futures'" by blast
    from k t1 have "events st' = events st @ (tr1 @ tr2) \<and> pools_of (tr1 @ tr2) = []
        \<and> Suc k \<le> length (i # rest)
        \<and> jobs_of (tr1 @ tr2) = map (\<lambda>i. job_index (jobs ! i)) (take (Suc k) (i # rest))
        \<and> dom futures' = dom futures \<union> set (take (Suc k) (i # rest))
        \<and> (Suc k = length (i # rest) \<or> failure_seen (length jobs) futures')"
      by (auto simp: pools_of_append jobs_of_append)
    then show ?thesis by blast
  qed
qed

lemma run_scheduled_origin:
  "run_scheduled T jobs extra order futures st = (futures', st') \<Longrightarrow> futures' i = Some r \<Longrightarrow>
     futures i = Some r \<or> (\<exists>s s'. applytfms T (jobs ! i) s = (r, s'))"
proof (induction order arbitrary: extra futures st)
  case Nil
  then show ?case by simp
next
  case (Cons j rest)
  show ?case
  proof (cases "failure_seen (length jobs) futures \<and> extra = 0")
    case True
    with Cons.prems show ?thesis by simp
  next
    case False
    obtain rj st1 where a: "applytfms T (jobs ! j) st = (rj, st1)"
      by (cases "applytfms T (jobs ! j) st")
    with Cons.prems(1) False
    have "run_scheduled T jobs (if failure_seen (length jobs) futures then extra - 1 else extra)
            rest (futures(j \<mapsto> rj)) st1 = (futures', st')"
      by (simp split: if_splits)
    from Cons.IH [OF this Cons.prems(2)] a show ?thesis
      by (cases "i = j") auto
  qed
qed


lemma pool_map_state:
  assumes "pool_map T max_workers sched jobs st = (r, st')"
  shows "(ifargs st')(''copy_dtype'' := None) = (ifargs st)(''copy_dtype'' := None)"
    and "dirs st' = dirs st"
proof -
  let ?st = "st\<lparr>events := events st @ [PoolCreated max_workers]\<rparr>"
  obtain futures where
    s: "run_scheduled T jobs (late sched) (complete_schedule (length jobs) (completes sched))
          Map.empty ?st = (futures, st')"
    using assms by (auto simp: pool_map_def split: prod.splits)
  from run_scheduled_state [OF s]
  show "(ifargs st')(''copy_dtype'' := None) = (ifargs st)(''copy_dtype'' := None)"
    and "dirs st' = dirs st"
    by simp_all
qed

lemma pool_map_results:
  assumes "pool_map T max_workers sched jobs st = (Inr rs, st')"
      and "(ifargs st)(''copy_dtype'' := None) = base"
  shows "rs = map (expected T base) jobs"
proof -
  let ?st = "st\<lparr>events := events st @ [PoolCreated max_workers]\<rparr>"
  obtain futures where
    s: "run_scheduled T jobs (late sched) (complete_schedule (length jobs) (completes sched))
          Map.empty ?st = (futures, st')"
    and g: "gather futures [0 ..< length jobs] = Inr rs"
    using assms(1) by (auto simp: pool_map_def split: prod.splits)
  from g have p: "poll futures [0 ..< length jobs] = Some (Inr rs)"
    by (auto simp: gather_def split: option.splits)
  have b: "(ifargs ?st)(''copy_dtype'' := None) = base" using assms(2) by simp
  have "\<forall>i x. futures i = Some (Inr x) \<longrightarrow> x = expected T base (jobs ! i)"
    by (rule run_scheduled_results [OF s b]) simp
  from poll_results [OF p this] have "rs = map (\<lambda>i. expected T base (jobs ! i)) [0 ..< length jobs]" .
  also have "\<dots> = map (expected T base) jobs"
    by (rule nth_equalityI) simp_all
  finally show ?thesis .
qed

text \<open>
  The trace and the outcome of a pool: the pool is created first; then the jobs of an
  initial stretch of the schedule run, all of them when \<open>map\<close> returns, and at least one
  when it raises; the error it raises is never the one of a future that did not run.
\<close>

lemma pool_map_trace:
  assumes "pool_map T max_workers sched jobs st = (r, st')"
  shows "\<exists>tr k. events st' = events st @ PoolCreated max_workers # tr \<and> pools_of tr = []
           \<and> k \<le> length jobs
           \<and> jobs_of tr = map (\<lambda>i. job_index (jobs ! i))
                              (take k (complete_schedule (length jobs) (completes sched)))
           \<and> ((\<exists>rs. r = Inr rs) \<longrightarrow> k = length jobs)
           \<and> ((\<exists>e. r = Inl e) \<longrightarrow> 0 < k \<and> (\<exists>e. poll (fst (run_scheduled T jobs (late sched)
                   (complete_schedule (length jobs) (completes sched)) Map.empty
                   (st\<lparr>events := events st @ [PoolCreated max_workers]\<rparr>))) [0 ..< length jobs]
                     = Some (Inl e) \<and> r = Inl e))"
proof -
  let ?st = "st\<lparr>events := events st @ [PoolCreated max_workers]\<rparr>"
  let ?order = "complete_schedule (length jobs) (completes sched)"
  let ?n = "length jobs"
  obtain futures where
    s: "run_scheduled T jobs (late sched) ?order Map.empty ?st = (futures, st')"
    and g: "r = gather futures [0 ..< ?n]"
    using assms by (auto simp: pool_map_def split: prod.splits)
  from run_scheduled_trace [OF s] obtain tr k where k:
    "events st' = events ?st @ tr" "pools_of tr = []" "k \<le> length ?order"
    "jobs_of tr = map (\<lambda>i. job_index (jobs ! i)) (take k ?order)"
    "dom futures = dom (Map.empty :: nat \<rightharpoonup> error + string \<times> string) \<union> set (take k ?order)"
    "k = length ?order \<or> failure_seen ?n futures" by blast
  have len: "length ?order = ?n" by (rule complete_schedule_length)
  have ev: "events st' = events st @ PoolCreated max_workers # tr" using k(1) by simp
  have ok: "(\<exists>rs. r = Inr rs) \<longrightarrow> k = ?n"
  proof
    assume "\<exists>rs. r = Inr rs"
    then obtain rs where "gather futures [0 ..< ?n] = Inr rs" using g by auto
    then have "\<not> failure_seen ?n futures"
      by (auto simp: gather_def failure_seen_def split: option.splits)
    with k(6) len show "k = ?n" by simp
  qed
  have known: "poll futures [0 ..< ?n] \<noteq> None"
  proof (cases "k = length ?order")
    case True
    with k(5) have "dom futures = {0 ..< ?n}" by (simp add: complete_schedule_set)
    then show ?thesis by (intro poll_done) simp
  next
    case False
    with k(6) show ?thesis by (auto simp: failure_seen_def split: option.splits)
  qed
  have bad: "(\<exists>e. r = Inl e) \<longrightarrow> 0 < k \<and> (\<exists>e. poll futures [0 ..< ?n] = Some (Inl e) \<and> r = Inl e)"
  proof
    assume "\<exists>e. r = Inl e"
    then obtain e where e: "r = Inl e" by blast
    with g known have p: "poll futures [0 ..< ?n] = Some (Inl e)"
      by (auto simp: gather_def split: option.splits)
    from poll_error [OF p] have "dom futures \<noteq> {}" by auto
    with k(5) have "0 < k" by (cases k) auto
    with p e show "0 < k \<and> (\<exists>e. poll futures [0 ..< ?n] = Some (Inl e) \<and> r = Inl e)" by blast
  qed
  from ev k(2,3,4) len ok bad s show ?thesis by (intro exI [of _ tr] exI [of _ k]) simp
qed

lemma pool_map_failure:
  assumes "pool_map T max_workers sched jobs st = (Inl e, st')"
  shows "\<exists>i < length jobs. \<exists>s s'. applytfms T (jobs ! i) s = (Inl e, s')"
proof -
  let ?st = "st\<lparr>events := events st @ [PoolCreated max_workers]\<rparr>"
  let ?order = "complete_schedule (length jobs) (completes sched)"
  obtain futures where
    s: "run_scheduled T jobs (late sched) ?order Map.empty ?st = (futures, st')"
    using assms by (auto simp: pool_map_def split: prod.splits)
  from pool_map_trace [OF assms] s have "poll futures [0 ..< length jobs] = Some (Inl e)"
    by auto
  from poll_error [OF this] obtain i where i: "i < length jobs" and f: "futures i = Some (Inl e)"
    by auto
  from run_scheduled_origin [OF s f] have "\<exists>s s'. applytfms T (jobs ! i) s = (Inl e, s')" by simp
  with i show ?thesis by blast
qed


lemma job_index_make_jobs:
  "map job_index (make_jobs cwd in_files xfms_list) = [0 ..< length (make_jobs cwd in_files xfms_list)]"
  by (intro nth_equalityI) (simp_all add: make_jobs_def job_index_def nth_enumerate_eq)

lemma job_index_nth:
  assumes "i < length (make_jobs cwd in_files xfms_list)"
  shows "job_index (make_jobs cwd in_files xfms_list ! i) = i"
proof -
  have "map job_index (make_jobs cwd in_files xfms_list) ! i
          = [0 ..< length (make_jobs cwd in_files xfms_list)] ! i"
    by (simp only: job_index_make_jobs)
  with assms show ?thesis by simp
qed

lemma fst_expected_make_jobs:
  assumes "length xfms_list = length in_files"
  shows "map fst (map (expected T base) (make_jobs cwd in_files xfms_list))
           = map (\<lambda>(i, in_file). out_file_name T in_file i cwd) (enumerate 0 in_files)"
  using assms
  by (intro nth_equalityI) (simp_all add: make_jobs_def expected_def nth_enumerate_eq)

lemma snd_expected_make_jobs:
  "map snd (map (expected T base) (make_jobs cwd in_files xfms_list))
     = map (\<lambda>(i, in_file, in_xfm). cmdline_of T in_file in_xfm (out_file_name T in_file i cwd) base)
           (enumerate 0 (zip in_files xfms_list))"
  by (simp add: make_jobs_def expected_def case_prod_unfold)

lemma run_interface_unfold:
  "MultiApplyTransforms_run_interface T cwd sched inp st =
     (if length (transforms inp) \<noteq> length (input_image inp)
      then (Inl AssertionError, start_state T cwd inp st)
      else case dispatch T (num_threads inp) sched
                  (make_jobs cwd (input_image inp) (transforms inp)) (start_state T cwd inp st) of
             (Inl e, st2) \<Rightarrow> (Inl e, st2)
           | (Inr outs, st2) \<Rightarrow> collect cwd (save_cmd inp) (temp_name T cwd (dirs st)) outs st2)"
  by (simp add: MultiApplyTransforms_run_interface_def start_state_def Let_def)

lemma start_state_base: "(ifargs (start_state T cwd inp st))(''copy_dtype'' := None) = job_ifargs inp"
  by (simp add: start_state_def job_ifargs_def)

lemma dispatch_cases:
  "dispatch T threads sched jobs st =
     (if threads = 1 then run_jobs T jobs st
      else pool_map T (if threads < 1 then None else Some threads) sched jobs st)"
  by (simp add: dispatch_def)

lemma dispatch_results:
  assumes "dispatch T threads sched jobs st = (Inr outs, st2)"
      and "(ifargs st)(''copy_dtype'' := None) = base"
  shows "outs = map (expected T base) jobs"
proof (cases "threads = 1")
  case True
  with assms(1) have "run_jobs T jobs st = (Inr outs, st2)" by (simp add: dispatch_cases)
  from run_jobs_results [OF this assms(2)] show ?thesis .
next
  case False
  with assms(1) have "pool_map T (if threads < 1 then None else Some threads) sched jobs st = (Inr outs, st2)"
    by (simp add: dispatch_cases)
  from pool_map_results [OF this assms(2)] show ?thesis .
qed

lemma dispatch_dirs:
  assumes "dispatch T threads sched jobs st = (r, st2)"
  shows "dirs st2 = dirs st"
proof (cases "threads = 1")
  case True
  with assms have "run_jobs T jobs st = (r, st2)" by (simp add: dispatch_cases)
  from run_jobs_state [OF this] show ?thesis by simp
next
  case False
  with assms have "pool_map T (if threads < 1 then None else Some threads) sched jobs st = (r, st2)"
    by (simp add: dispatch_cases)
  from pool_map_state(2) [OF this] show ?thesis .
qed

lemma collect_results:
  assumes "collect cwd save tmp outs st = (r, st')"
  shows "r = Inr \<lparr>out_files = map fst outs,
                   log_cmdline = (if save then Some (path_join cwd ''command.txt'') else None)\<rparr>"
    and "save \<Longrightarrow> files st' (path_join cwd ''command.txt'')
                     = Some (Text (join log_delimiter (map snd outs) @ newline))"
    and "tmp \<notin> dirs st'"
    and "events st' = events st"
  using assms by (auto simp: collect_def cleanup_def Let_def split: if_splits)

text \<open>
  C1. Whenever the executor returns, with any number of workers and any order in which
  a pool runs and completes the jobs, the output names are those of volumes
  \<open>0, \<dots>, N - 1\<close> in this order, and (when the log is asked for) the log file holds the
  command lines of volumes \<open>0, \<dots>, N - 1\<close> in this order, separated by the delimiter.
\<close>

theorem outputs_in_index_order:
  assumes "MultiApplyTransforms_run_interface T cwd sched inp st = (Inr res, st')"
  shows "out_files res = expected_outputs T cwd inp
       \<and> (save_cmd inp \<longrightarrow>
            log_cmdline res = Some (path_join cwd ''command.txt'')
          \<and> files st' (path_join cwd ''command.txt'') = Some (Text (expected_log T cwd inp)))"
proof -
  let ?jobs = "make_jobs cwd (input_image inp) (transforms inp)"
  let ?st1 = "start_state T cwd inp st"
  from assms have len: "length (transforms inp) = length (input_image inp)"
    by (auto simp: run_interface_unfold split: if_splits)
  obtain r st2 where d: "dispatch T (num_threads inp) sched ?jobs ?st1 = (r, st2)"
    by (cases "dispatch T (num_threads inp) sched ?jobs ?st1")
  with assms len obtain outs where r: "r = Inr outs"
    and c: "collect cwd (save_cmd inp) (temp_name T cwd (dirs st)) outs st2 = (Inr res, st')"
    by (cases r) (auto simp: run_interface_unfold)
  from dispatch_results [OF d [unfolded r] start_state_base]
  have outs: "outs = map (expected T (job_ifargs inp)) ?jobs" .
  have o: "map fst outs = expected_outputs T cwd inp"
    unfolding outs expected_outputs_def by (rule fst_expected_make_jobs [OF len])
  have l: "join log_delimiter (map snd outs) @ newline = expected_log T cwd inp"
    unfolding outs expected_log_def by (simp only: snd_expected_make_jobs)
  from collect_results(1,2) [OF c] o l show ?thesis by auto
qed

lemmas demo_defs = MultiApplyTransforms_run_interface_def demo_tools_def demo_inputs_def
      demo_state_def demo_schedule_def make_jobs_def dispatch_def pool_map_def complete_schedule_def
      gather_def failure_seen_def applytfms_def out_file_name_def collect_def load_image_def
      cleanup_def path_join_def prepare_ifargs_def Let_def pct_0d_5_0 pct_0d_5_1

theorem outputs_in_index_order_witness:
  "fst (MultiApplyTransforms_run_interface demo_tools ''/w'' demo_schedule demo_inputs demo_state)
     = Inr \<lparr>out_files = [''/w/a.nii_xform-00000'', ''/w/b.nii_xform-00001''],
            log_cmdline = Some ''/w/command.txt''\<rparr>
   \<and> expected_outputs demo_tools ''/w'' demo_inputs = [''/w/a.nii_xform-00000'', ''/w/b.nii_xform-00001'']
   \<and> files (snd (MultiApplyTransforms_run_interface demo_tools ''/w'' demo_schedule demo_inputs demo_state)) ''/w/command.txt''
       = Some (Text (expected_log demo_tools ''/w'' demo_inputs))"
proof -
  let ?run = "MultiApplyTransforms_run_interface demo_tools ''/w'' demo_schedule demo_inputs demo_state"
  let ?res = "\<lparr>out_files = [''/w/a.nii_xform-00000'', ''/w/b.nii_xform-00001''],
               log_cmdline = Some ''/w/command.txt''\<rparr>"
  have f: "fst ?run = Inr ?res" by (simp add: demo_defs)
  then have r: "?run = (Inr ?res, snd ?run)" by (metis prod.collapse)
  have s: "save_cmd demo_inputs" by (simp add: demo_inputs_def)
  have p: "path_join ''/w'' ''command.txt'' = ''/w/command.txt''" by (simp add: path_join_def)
  from outputs_in_index_order [OF r] s p f show ?thesis by simp
qed


subsection \<open>Sequential or pooled\<close>

lemma dispatch_trace:
  assumes "dispatch T threads sched (make_jobs cwd in_files xfms_list) st = (r, st2)"
  shows "threads = 1 \<Longrightarrow>
           \<exists>tr k. events st2 = events st @ tr \<and> pools_of tr = []
              \<and> k \<le> length (make_jobs cwd in_files xfms_list) \<and> jobs_of tr = [0 ..< k]
              \<and> ((\<exists>rs. r = Inr rs) \<longrightarrow> k = length (make_jobs cwd in_files xfms_list))
              \<and> ((\<exists>e. r = Inl e) \<longrightarrow> 0 < k)"
    and "threads \<noteq> 1 \<Longrightarrow>
           \<exists>tr k. events st2 = events st @ PoolCreated (if threads < 1 then None else Some threads) # tr
              \<and> pools_of tr = []
              \<and> k \<le> length (make_jobs cwd in_files xfms_list)
              \<and> jobs_of tr = take k (complete_schedule (length (make_jobs cwd in_files xfms_list))
                                       (completes sched))
              \<and> ((\<exists>rs. r = Inr rs) \<longrightarrow> k = length (make_jobs cwd in_files xfms_list))
              \<and> ((\<exists>e. r = Inl e) \<longrightarrow> 0 < k)"
proof -
  let ?jobs = "make_jobs cwd in_files xfms_list"
  let ?n = "length ?jobs"
  {
    assume "threads = 1"
    with assms have j: "run_jobs T ?jobs st = (r, st2)" by (simp add: dispatch_cases)
    from run_jobs_trace [OF j] obtain tr k where k:
      "events st2 = events st @ tr" "pools_of tr = []" "k \<le> ?n"
      "jobs_of tr = map job_index (take k ?jobs)"
      "(\<exists>rs. r = Inr rs) \<longrightarrow> k = ?n" "(\<exists>e. r = Inl e) \<longrightarrow> 0 < k" by blast
    have "map job_index (take k ?jobs) = take k (map job_index ?jobs)" by (simp add: take_map)
    also have "\<dots> = take k [0 ..< ?n]" by (simp only: job_index_make_jobs)
    also have "\<dots> = [0 ..< k]" using k(3) by (simp add: take_upt)
    finally have "jobs_of tr = [0 ..< k]" using k(4) by simp
    with k show "\<exists>tr k. events st2 = events st @ tr \<and> pools_of tr = [] \<and> k \<le> ?n
              \<and> jobs_of tr = [0 ..< k]
              \<and> ((\<exists>rs. r = Inr rs) \<longrightarrow> k = ?n) \<and> ((\<exists>e. r = Inl e) \<longrightarrow> 0 < k)" by blast
  }
  {
    let ?w = "if threads < 1 then None else Some threads"
    let ?order = "complete_schedule ?n (completes sched)"
    assume "threads \<noteq> 1"
    with assms have p: "pool_map T ?w sched ?jobs st = (r, st2)" by (simp add: dispatch_cases)
    from pool_map_trace [OF p] obtain tr k where k:
      "events st2 = events st @ PoolCreated ?w # tr" "pools_of tr = []" "k \<le> ?n"
      "jobs_of tr = map (\<lambda>i. job_index (?jobs ! i)) (take k ?order)"
      "(\<exists>rs. r = Inr rs) \<longrightarrow> k = ?n" "(\<exists>e. r = Inl e) \<longrightarrow> 0 < k" by blast
    have "\<forall>i \<in> set (take k ?order). i < ?n"
      using complete_schedule_set [of ?n "completes sched"] by (auto dest: in_set_takeD)
    then have "map (\<lambda>i. job_index (?jobs ! i)) (take k ?order) = take k ?order"
      by (intro map_idI) (simp add: job_index_nth)
    with k show "\<exists>tr k. events st2 = events st @ PoolCreated ?w # tr \<and> pools_of tr = []
              \<and> k \<le> ?n \<and> jobs_of tr = take k ?order
              \<and> ((\<exists>rs. r = Inr rs) \<longrightarrow> k = ?n) \<and> ((\<exists>e. r = Inl e) \<longrightarrow> 0 < k)" by auto
  }
qed

lemma run_interface_events:
  assumes "length (transforms inp) = length (input_image inp)"
      and "MultiApplyTransforms_run_interface T cwd sched inp st = (r, st')"
  obtains d st2 where
    "dispatch T (num_threads inp) sched (make_jobs cwd (input_image inp) (transforms inp))
       (start_state T cwd inp st) = (d, st2)"
    "events st' = events st2" "(\<exists>res. r = Inr res) = (\<exists>outs. d = Inr outs)"
    "(\<exists>e. r = Inl e) = (\<exists>e. d = Inl e)"
proof -
  let ?jobs = "make_jobs cwd (input_image inp) (transforms inp)"
  let ?st1 = "start_state T cwd inp st"
  obtain d st2 where d: "dispatch T (num_threads inp) sched ?jobs ?st1 = (d, st2)"
    by (cases "dispatch T (num_threads inp) sched ?jobs ?st1")
  show thesis
  proof (cases d)
    case (Inl e)
    with assms d have "st' = st2" "r = Inl e" by (simp_all add: run_interface_unfold)
    with d Inl show ?thesis by (intro that [of d st2]) simp_all
  next
    case (Inr outs)
    with assms d have c: "collect cwd (save_cmd inp) (temp_name T cwd (dirs st)) outs st2 = (r, st')"
      by (simp add: run_interface_unfold)
    from collect_results(1,4) [OF c] d Inr show ?thesis by (intro that [of d st2]) simp_all
  qed
qed

text \<open>
  C2. Sequential execution for every worker count \<open>w \<le> 1\<close> does not hold below 1: with
  \<open>num_threads = 0\<close> the executor creates a pool, with no bound of its own
  (\<open>max_workers=None\<close>), and runs the jobs in it.
\<close>

theorem pool_created_for_zero_workers:
  "events (snd (MultiApplyTransforms_run_interface demo_tools ''/w'' demo_schedule
      (demo_inputs\<lparr>num_threads := 0\<rparr>) demo_state))
     = [PoolCreated None, Job 1, Job 0]"
  by (simp add: demo_defs)

text \<open>
  C2, for the worker counts as the code treats them. With a worker count of exactly 1
  no pool is created and the jobs start one after the other in the order of the
  volumes. With any other worker count one pool is created first, bounded by \<open>w\<close> when
  \<open>w > 1\<close> and without a bound of its own when \<open>w < 1\<close>, and the jobs run in it, in the
  order of the schedule. In both cases all jobs run when the run succeeds; when it
  fails, a first part of that order has run, at least one job.
\<close>

theorem worker_count_dispatch:
  assumes "length (transforms inp) = length (input_image inp)"
      and "MultiApplyTransforms_run_interface T cwd sched inp st = (r, st')"
  shows "(num_threads inp = 1 \<longrightarrow>
            (\<exists>tr k. events st' = events st @ tr \<and> pools_of tr = []
               \<and> k \<le> length (input_image inp) \<and> jobs_of tr = [0 ..< k]
               \<and> ((\<exists>res. r = Inr res) \<longrightarrow> k = length (input_image inp))
               \<and> ((\<exists>e. r = Inl e) \<longrightarrow> 0 < k)))
       \<and> (num_threads inp \<noteq> 1 \<longrightarrow>
            (\<exists>tr k. events st' = events st
                       @ PoolCreated (if num_threads inp < 1 then None else Some (num_threads inp)) # tr
               \<and> pools_of tr = []
               \<and> k \<le> length (input_image inp)
               \<and> jobs_of tr = take k (complete_schedule (length (input_image inp)) (completes sched))
               \<and> ((\<exists>res. r = Inr res) \<longrightarrow> k = length (input_image inp))
               \<and> ((\<exists>e. r = Inl e) \<longrightarrow> 0 < k)))"
proof -
  let ?jobs = "make_jobs cwd (input_image inp) (transforms inp)"
  from run_interface_events [OF assms] obtain d st2 where
    d: "dispatch T (num_threads inp) sched ?jobs (start_state T cwd inp st) = (d, st2)"
    and ev: "events st' = events st2" and ok: "(\<exists>res. r = Inr res) = (\<exists>outs. d = Inr outs)"
    and bad: "(\<exists>e. r = Inl e) = (\<exists>e. d = Inl e)"
    by blast
  have ev0: "events (start_state T cwd inp st) = events st" by (simp add: start_state_def)
  have len: "length ?jobs = length (input_image inp)"
    using assms(1) by (simp add: make_jobs_def)
  show ?thesis
  proof (intro conjI impI)
    assume "num_threads inp = 1"
    from dispatch_trace(1) [OF d this]
    show "\<exists>tr k. events st' = events st @ tr \<and> pools_of tr = []
               \<and> k \<le> length (input_image inp) \<and> jobs_of tr = [0 ..< k]
               \<and> ((\<exists>res. r = Inr res) \<longrightarrow> k = length (input_image inp))
               \<and> ((\<exists>e. r = Inl e) \<longrightarrow> 0 < k)"
      by (simp only: ev ev0 len ok bad)
  next
    assume "num_threads inp \<noteq> 1"
    from dispatch_trace(2) [OF d this]
    show "\<exists>tr k. events st' = events st
                       @ PoolCreated (if num_threads inp < 1 then None else Some (num_threads inp)) # tr
               \<and> pools_of tr = []
               \<and> k \<le> length (input_image inp)
               \<and> jobs_of tr = take k (complete_schedule (length (input_image inp)) (completes sched))
               \<and> ((\<exists>res. r = Inr res) \<longrightarrow> k = length (input_image inp))
               \<and> ((\<exists>e. r = Inl e) \<longrightarrow> 0 < k)"
      by (simp only: ev ev0 len ok bad)
  qed
qed

text \<open>
  Four workers, two volumes, volume 1 completing first: the pool is created, then job 1
  and job 0 run in it.
\<close>

theorem worker_count_dispatch_witness:
  "length (transforms demo_inputs) = length (input_image demo_inputs)
   \<and> num_threads demo_inputs \<noteq> 1
   \<and> (\<exists>tr. events (snd (MultiApplyTransforms_run_interface demo_tools ''/w'' demo_schedule
                 demo_inputs demo_state)) = PoolCreated (Some 4) # tr
          \<and> pools_of tr = [] \<and> jobs_of tr = [1, 0])"
proof -
  let ?run = "MultiApplyTransforms_run_interface demo_tools ''/w'' demo_schedule demo_inputs demo_state"
  have l: "length (transforms demo_inputs) = length (input_image demo_inputs)"
    by (simp add: demo_inputs_def)
  have r: "?run = (fst ?run, snd ?run)" by simp
  have w: "num_threads demo_inputs \<noteq> 1" "\<not> num_threads demo_inputs < 1" "num_threads demo_inputs = 4"
    by (simp_all add: demo_inputs_def)
  have e: "events demo_state = []" by (simp add: demo_state_def)
  have ok: "\<exists>res. fst ?run = Inr res" by (simp add: demo_defs)
  have n: "length (input_image demo_inputs) = 2" by (simp add: demo_inputs_def)
  have c: "complete_schedule 2 (completes demo_schedule) = [1, 0]"
    by code_simp
  from worker_count_dispatch [OF l r] w(1) obtain tr k where
    "events (snd ?run) = events demo_state
        @ PoolCreated (if num_threads demo_inputs < 1 then None else Some (num_threads demo_inputs)) # tr"
    "pools_of tr = []"
    "jobs_of tr = take k (complete_schedule (length (input_image demo_inputs)) (completes demo_schedule))"
    "(\<exists>res. fst ?run = Inr res) \<longrightarrow> k = length (input_image demo_inputs)"
    by blast
  with ok e w n c have "events (snd ?run) = PoolCreated (Some 4) # tr \<and> pools_of tr = [] \<and> jobs_of tr = [1, 0]"
    by simp
  with l w(1) show ?thesis by blast
qed

subsection \<open>The temporary folder\<close>

lemma run_failure_keeps_tmp:
  assumes "MultiApplyTransforms_run_interface T cwd sched inp st = (Inl e, st')"
  shows "temp_name T cwd (dirs st) \<in> dirs st'"
proof (cases "length (transforms inp) \<noteq> length (input_image inp)")
  case True
  with assms show ?thesis by (auto simp: run_interface_unfold start_state_def)
next
  case False
  let ?jobs = "make_jobs cwd (input_image inp) (transforms inp)"
  let ?st1 = "start_state T cwd inp st"
  obtain r st2 where d: "dispatch T (num_threads inp) sched ?jobs ?st1 = (r, st2)"
    by (cases "dispatch T (num_threads inp) sched ?jobs ?st1")
  have "st' = st2"
  proof (cases r)
    case (Inl e')
    with assms False d show ?thesis by (simp add: run_interface_unfold)
  next
    case (Inr outs)
    with assms False d have "collect cwd (save_cmd inp) (temp_name T cwd (dirs st)) outs st2 = (Inl e, st')"
      by (simp add: run_interface_unfold)
    from collect_results(1) [OF this] show ?thesis by simp
  qed
  with dispatch_dirs [OF d] show ?thesis by (simp add: start_state_def)
qed

lemma run_success_removes_tmp:
  assumes "MultiApplyTransforms_run_interface T cwd sched inp st = (Inr res, st')"
  shows "temp_name T cwd (dirs st) \<notin> dirs st'"
proof -
  let ?jobs = "make_jobs cwd (input_image inp) (transforms inp)"
  let ?st1 = "start_state T cwd inp st"
  from assms have len: "length (transforms inp) = length (input_image inp)"
    by (auto simp: run_interface_unfold split: if_splits)
  obtain r st2 where d: "dispatch T (num_threads inp) sched ?jobs ?st1 = (r, st2)"
    by (cases "dispatch T (num_threads inp) sched ?jobs ?st1")
  with assms len obtain outs where
    c: "collect cwd (save_cmd inp) (temp_name T cwd (dirs st)) outs st2 = (Inr res, st')"
    by (cases r) (auto simp: run_interface_unfold)
  from collect_results(3) [OF c] show ?thesis .
qed

text \<open>
  C9. The specification promises that the temporary folder is removed also when a job
  fails. In a sequential run whose second volume is missing, the tool's error is raised
  and the folder is still there: \<open>cleanup\<close> is only reached after all jobs have
  succeeded.
\<close>

theorem tmp_folder_left_on_failure:
  "fst (MultiApplyTransforms_run_interface demo_tools ''/w'' demo_schedule failing_inputs demo_state)
     = Inl (ExternalToolError ''no input'')
   \<and> temp_name demo_tools ''/w'' (dirs demo_state)
       \<in> dirs (snd (MultiApplyTransforms_run_interface demo_tools ''/w'' demo_schedule failing_inputs demo_state))"
  by (simp add: demo_defs failing_inputs_def)

subsection \<open>Data type preservation across the jobs of a run\<close>

text \<open>
  C10. With \<open>copy_dtype\<close> set in the inputs, the specification promises that an output
  whose data type differs from its input's is stored again with the input's data type.
  In a sequential run on two \<open>Int16\<close> volumes whose outputs come back as \<open>Float32\<close>, the
  first output is stored again as \<open>Int16\<close> and the second stays \<open>Float32\<close>: the first
  worker has popped \<open>copy_dtype\<close> from the option bag all workers share, so the second
  does not compare the data types at all.
\<close>

theorem copy_dtype_lost_after_first_job:
  "fst (MultiApplyTransforms_run_interface demo_tools ''/w'' demo_schedule sequential_inputs int16_state)
     = Inr \<lparr>out_files = [''/w/a.nii_xform-00000'', ''/w/b.nii_xform-00001''],
            log_cmdline = Some ''/w/command.txt''\<rparr>
   \<and> files (snd (MultiApplyTransforms_run_interface demo_tools ''/w'' demo_schedule sequential_inputs
         int16_state)) ''/w/a.nii_xform-00000'' = Some (Image Int16 [1, 2])
   \<and> files (snd (MultiApplyTransforms_run_interface demo_tools ''/w'' demo_schedule sequential_inputs
         int16_state)) ''/w/b.nii_xform-00001'' = Some (Image Float32 [3])
   \<and> events (snd (MultiApplyTransforms_run_interface demo_tools ''/w'' demo_schedule sequential_inputs
         int16_state)) = [Job 0, ToFilename ''/w/a.nii_xform-00000'', Job 1]"
  by (simp add: demo_defs sequential_inputs_def int16_state_def)

end
